theory Spec2Isabelle
  imports Complex_Main
begin

chapter \<open>The model of the program\<close>

section \<open>The index enumerator: \<open>Vegas.get_next_index\<close>\<close>

text \<open>
  The source walks the index vector from position 0, replaces each component by
  \<open>(indices[i] + 1) % limit\<close> and returns at the first component that did not wrap to 0.
  The vector is mutated in place; the model returns the new vector. Python's \<open>%\<close> on
  integers is the floored remainder, which is \<open>mod\<close> on \<open>int\<close>. The program only calls it
  with \<open>limit = bin_num\<close>, which is at least 1 there.
\<close>

fun get_next_index :: "int list \<Rightarrow> int \<Rightarrow> int list" where
  "get_next_index [] limit = []"
| "get_next_index (x # xs) limit =
     (let v = (x + 1) mod limit
      in if v \<noteq> 0 then v # xs else v # get_next_index xs limit)"

text \<open>\<open>advance k limit xs\<close> is the vector after \<open>k\<close> successive calls.\<close>

definition advance :: "nat \<Rightarrow> int \<Rightarrow> int list \<Rightarrow> int list" where
  "advance k limit xs = ((\<lambda>ys. get_next_index ys limit) ^^ k) xs"

text \<open>A valid index vector: \<open>dims\<close> components, each in \<open>[0, limit)\<close>.\<close>

definition valid_indices :: "int \<Rightarrow> nat \<Rightarrow> int list \<Rightarrow> bool" where
  "valid_indices limit dims xs \<longleftrightarrow> length xs = dims \<and> list_all (\<lambda>x. 0 \<le> x \<and> x < limit) xs"

text \<open>The number a vector denotes, least significant component first.\<close>

fun index_value :: "int \<Rightarrow> int list \<Rightarrow> int" where
  "index_value limit [] = 0"
| "index_value limit (x # xs) = x + limit * index_value limit xs"

section \<open>Arrays and errors\<close>

text \<open>
  The program computes with numpy arrays of double-precision floats. The model computes with
  real numbers, so the rounding of values is not represented: where the program's result is
  right up to floating tolerance, the model's is exact. (The one place where rounding changes
  what the program does next, the length of \<open>np.arange\<close>, is modelled with rounding.)

  A two-dimensional array is kept by column: \<open>m ! d\<close> is column \<open>d\<close>, and the source's
  \<open>m[i, d]\<close> is \<open>m ! d ! i\<close>. Every array operation of the program works along the bin axis,
  one column (dimension) at a time.
\<close>

type_synonym matrix = "real list list"

text \<open>
  The exceptions the program can raise. \<open>OutsideModel\<close> is not an exception of the program:
  it marks the places where numpy goes on with \<open>inf\<close> or \<open>nan\<close> entries after a division by
  zero, where it would broadcast arrays of shapes the program never builds, and where the
  Cython code, compiled without bounds checks, would read out of bounds.
\<close>

datatype error =
    Exception string
  | AttributeError string
  | ZeroDivisionError
  | ValueError
  | IndexError
  | OutsideModel

text \<open>
  Indexing with wrap-around, as numpy and Cython memoryviews do it: a negative index counts
  from the end; \<open>None\<close> is an index out of range.
\<close>

definition wrap_index :: "nat \<Rightarrow> int \<Rightarrow> nat option" where
  "wrap_index n i =
     (if 0 \<le> i \<and> i < int n then Some (nat i)
      else if - int n \<le> i \<and> i < 0 then Some (nat (int n + i))
      else None)"

section \<open>The region mapper: \<open>_get_selected_region\<close> and \<open>Vegas.get_selected_subregion\<close>\<close>

text \<open>
  The body of the loop over \<open>dim\<close>, for one dimension: \<open>lo\<close> and \<open>hi\<close> are \<open>region[0, dim]\<close> and
  \<open>region[1, dim]\<close>, \<open>col\<close> is \<open>bins[:, dim]\<close> and \<open>index\<close> is \<open>indices[dim]\<close>. The lower edge
  of bin 0 is read from the last row, \<open>max_index = bins.shape[0] - 1\<close>.
\<close>

definition selected_interval :: "real \<Rightarrow> real \<Rightarrow> real list \<Rightarrow> int \<Rightarrow> (real \<times> real) option" where
  "selected_interval lo hi col index =
     (let tot_range = hi - lo;
          max_index = int (length col) - 1;
          lower_index = (if index = 0 then max_index else index - 1)
      in case (wrap_index (length col) lower_index, wrap_index (length col) index) of
           (Some l, Some u) \<Rightarrow> Some (lo + col ! l * tot_range, lo + col ! u * tot_range)
         | _ \<Rightarrow> None)"

text \<open>
  A region and a box are pairs of vectors: row 0 (the lower bounds) and row 1 (the upper
  bounds) of the source's \<open>[2, Dim]\<close> array.
\<close>

type_synonym box = "real list \<times> real list"

definition get_selected_region :: "box \<Rightarrow> matrix \<Rightarrow> int list \<Rightarrow> box option" where
  "get_selected_region total_region bins indices =
     (if length (fst total_region) < length indices \<or> length (snd total_region) < length indices
         \<or> length bins < length indices
      then None
      else map_option (\<lambda>ivs. (map fst ivs, map snd ivs))
        (those (map (\<lambda>dim. selected_interval (fst total_region ! dim) (snd total_region ! dim)
                        (bins ! dim) (indices ! dim))
                  [0 ..< length indices])))"

section \<open>The resize step: \<open>Vegas.resize_grid\<close>\<close>

definition column_mean :: "real list \<Rightarrow> real" where
  "column_mean col = sum_list col / real (length col)"

text \<open>
  The array expressions of \<open>resize_grid\<close> on one column: the mean with the exact-zero
  replacement, \<open>rel_weights = 1 / (alpha * mean + subintegrals)\<close>, its normalisation, the
  product with the old weights and the second normalisation. \<open>None\<close> where a divisor is 0
  (numpy would go on with \<open>inf\<close> or \<open>nan\<close>) or the column shapes differ.
\<close>

definition resize_weights :: "real \<Rightarrow> real list \<Rightarrow> real list \<Rightarrow> real list option" where
  "resize_weights alpha old_weights subintegrals =
     (let mean0 = column_mean subintegrals;
          mean = (if mean0 = 0 then 1 else mean0);
          denominators = map (\<lambda>s. alpha * mean + s) subintegrals
      in if subintegrals = [] \<or> length old_weights \<noteq> length subintegrals
            \<or> 0 \<in> set denominators
         then None
         else
           let rel_weights = map (\<lambda>d. 1 / d) denominators;
               total = sum_list rel_weights
           in if total = 0 then None
              else
                let rel_weights = map (\<lambda>r. r / total) rel_weights;
                    combined_weights = map2 (*) old_weights rel_weights;
                    combined_total = sum_list combined_weights
                in if combined_total = 0 then None
                   else Some (map (\<lambda>c. c / combined_total) combined_weights))"

text \<open>
  The inner loop \<open>for i, w in enumerate(combined_weights[:, dim]): grid[i, dim] = grid[i-1, dim] + w\<close>
  on the column \<open>grid[:, dim]\<close>, updated in place: \<open>i\<close> is the running index and the list holds
  the weights still to come. For \<open>i = 0\<close> the index \<open>i - 1\<close> wraps to the last row. \<open>None\<close> is
  numpy's IndexError.
\<close>

fun resize_bins :: "real list \<Rightarrow> nat \<Rightarrow> real list \<Rightarrow> real list option" where
  "resize_bins grid i [] = Some grid"
| "resize_bins grid i (w # ws) =
     (case wrap_index (length grid) (int i - 1) of
        None \<Rightarrow> None
      | Some j \<Rightarrow>
          if i < length grid then resize_bins (grid[i := grid ! j + w]) (Suc i) ws else None)"

definition resize_grid :: "matrix \<Rightarrow> matrix \<Rightarrow> matrix \<Rightarrow> real \<Rightarrow> error + (matrix \<times> matrix)" where
  "resize_grid grid old_weights subintegrals alpha =
     (if length old_weights \<noteq> length grid \<or> length subintegrals \<noteq> length grid
      then Inl OutsideModel
      else
        case those (map2 (resize_weights alpha) old_weights subintegrals) of
          None \<Rightarrow> Inl OutsideModel
        | Some combined_weights \<Rightarrow>
            (case those (map2 (\<lambda>col ws. resize_bins col 0 ws) grid combined_weights) of
               None \<Rightarrow> Inl IndexError
             | Some grid' \<Rightarrow> Inr (grid', combined_weights)))"

section \<open>The class \<open>Vegas\<close>\<close>

text \<open>
  The fields of an instance. \<open>rand\<close> is the random generator: \<open>rand s k j\<close> is component \<open>j\<close> of
  the vector that the \<open>k\<close>-th call of \<open>self.rand.rand(dimensions)\<close> returns, and \<open>draws\<close>, the
  generator's state, counts the calls made so far. The attributes \<open>bin_num\<close> and \<open>bins\<close> do not
  exist until \<open>prepare_grid\<close> has set them: they are \<open>None\<close> until then.
\<close>

record vegas =
  region :: box
  func :: "real list \<Rightarrow> real"
  dimensions :: nat
  rand :: "nat \<Rightarrow> nat \<Rightarrow> real"
  draws :: nat
  bin_num :: "int option"
  bins :: "matrix option"

definition vegas_init :: "box \<Rightarrow> (real list \<Rightarrow> real) \<Rightarrow> (nat \<Rightarrow> nat \<Rightarrow> real) \<Rightarrow> vegas" where
  "vegas_init region0 func0 rand0 =
     \<lparr>region = region0, func = func0, dimensions = length (fst region0), rand = rand0,
      draws = 0, bin_num = None, bins = None\<rparr>"

definition get_selected_subregion :: "vegas \<Rightarrow> matrix \<Rightarrow> int list \<Rightarrow> box option" where
  "get_selected_subregion s bins0 indices = get_selected_region (region s) bins0 indices"

subsection \<open>Sampling one bin\<close>

text \<open>\<open>self.rand.rand(dimensions)\<close>, as call number \<open>k\<close>.\<close>

definition rand_point :: "vegas \<Rightarrow> nat \<Rightarrow> nat \<Rightarrow> real list" where
  "rand_point s dims k = map (rand s k) [0 ..< dims]"

text \<open>\<open>np.prod(selected_zone[1,:] - selected_zone[0,:])\<close>.\<close>

definition volume_of :: "box \<Rightarrow> real" where
  "volume_of selected_zone = prod_list (map2 (-) (snd selected_zone) (fst selected_zone))"

text \<open>\<open>selected_zone[0,:] + rand_point * (selected_zone[1,:] - selected_zone[0,:])\<close>.\<close>

definition sample_point :: "box \<Rightarrow> real list \<Rightarrow> real list" where
  "sample_point selected_zone point =
     map2 (+) (fst selected_zone)
       (map2 (*) point (map2 (-) (snd selected_zone) (fst selected_zone)))"

text \<open>
  The loop \<open>for step in range(calls_per_bin)\<close> of \<open>prepare_grid\<close>: the first argument of the
  recursion counts the iterations left, the state is the generator's call count and
  \<open>mean_importance\<close>.
\<close>

fun importance_loop :: "vegas \<Rightarrow> nat \<Rightarrow> box \<Rightarrow> real \<Rightarrow> int \<Rightarrow> nat \<Rightarrow> nat \<times> real \<Rightarrow> nat \<times> real" where
  "importance_loop s dims selected_zone volume calls_per_bin 0 (k, mean_importance) =
     (k, mean_importance)"
| "importance_loop s dims selected_zone volume calls_per_bin (Suc n) (k, mean_importance) =
     (let point = rand_point s dims k;
          call_res = func s (sample_point selected_zone point)
      in importance_loop s dims selected_zone volume calls_per_bin n
           (Suc k, mean_importance + volume * \<bar>call_res\<bar> / real_of_int calls_per_bin))"

text \<open>The same loop in \<open>integrate\<close>, with the signed value of the integrand.\<close>

fun little_integral_loop :: "vegas \<Rightarrow> nat \<Rightarrow> box \<Rightarrow> real \<Rightarrow> int \<Rightarrow> nat \<Rightarrow> nat \<times> real \<Rightarrow> nat \<times> real" where
  "little_integral_loop s dims selected_zone volume calls_per_bin 0 (k, little_integral) =
     (k, little_integral)"
| "little_integral_loop s dims selected_zone volume calls_per_bin (Suc n) (k, little_integral) =
     (let point = rand_point s dims k;
          call_res = func s (sample_point selected_zone point)
      in little_integral_loop s dims selected_zone volume calls_per_bin n
           (Suc k, little_integral + volume * call_res / real_of_int calls_per_bin))"

text \<open>
  \<open>for i, j in zip(selected_bins, range(dimensions)): distrib[i, j] += mean_importance\<close>.
  Both \<open>selected_bins\<close> and \<open>distrib\<close> have \<open>dimensions\<close> entries (columns).
\<close>

definition add_importance :: "matrix \<Rightarrow> int list \<Rightarrow> real \<Rightarrow> matrix option" where
  "add_importance distrib selected_bins mean_importance =
     those (map2 (\<lambda>i col. case wrap_index (length col) i of
                              None \<Rightarrow> None
                            | Some r \<Rightarrow> Some (col[r := col ! r + mean_importance]))
              selected_bins distrib)"

subsection \<open>Training: \<open>Vegas.prepare_grid\<close>\<close>

text \<open>
  The loop \<open>for _ in range(total_bins)\<close> of one epoch; the state is \<open>selected_bins\<close>, \<open>distrib\<close>
  and the generator's call count. A \<open>range\<close> over a negative number is empty, so the sampling
  loop runs \<open>nat calls_per_bin\<close> times.
\<close>

fun training_bins_loop ::
  "vegas \<Rightarrow> nat \<Rightarrow> matrix \<Rightarrow> int \<Rightarrow> int \<Rightarrow> nat \<Rightarrow> int list \<times> matrix \<times> nat
    \<Rightarrow> (int list \<times> matrix \<times> nat) option" where
  "training_bins_loop s dims bins0 bin_num0 calls_per_bin 0 st = Some st"
| "training_bins_loop s dims bins0 bin_num0 calls_per_bin (Suc n) (selected_bins, distrib, k) =
     (case get_selected_subregion s bins0 selected_bins of
        None \<Rightarrow> None
      | Some selected_zone \<Rightarrow>
          let volume = volume_of selected_zone;
              (k', mean_importance) =
                 importance_loop s dims selected_zone volume calls_per_bin (nat calls_per_bin) (k, 0)
          in case add_importance distrib selected_bins mean_importance of
               None \<Rightarrow> None
             | Some distrib' \<Rightarrow>
                 training_bins_loop s dims bins0 bin_num0 calls_per_bin n
                   (get_next_index selected_bins bin_num0, distrib', k'))"

text \<open>
  The loop \<open>for epoch in range(epochs)\<close>; the state is \<open>bins\<close>, \<open>weights\<close> and the generator's
  call count.
\<close>

fun epochs_loop ::
  "vegas \<Rightarrow> nat \<Rightarrow> int \<Rightarrow> int \<Rightarrow> int \<Rightarrow> real \<Rightarrow> nat \<Rightarrow> matrix \<times> matrix \<times> nat
    \<Rightarrow> error + (matrix \<times> matrix \<times> nat)" where
  "epochs_loop s dims bin_num0 total_bins calls_per_bin alpha 0 st = Inr st"
| "epochs_loop s dims bin_num0 total_bins calls_per_bin alpha (Suc n) (bins0, weights, k) =
     (let selected_bins = replicate dims 0;
          distrib = replicate dims (replicate (nat bin_num0) 0)
      in case training_bins_loop s dims bins0 bin_num0 calls_per_bin (nat total_bins)
                (selected_bins, distrib, k) of
           None \<Rightarrow> Inl OutsideModel
         | Some (_, distrib', k') \<Rightarrow>
             (case resize_grid bins0 weights distrib' alpha of
                Inl e \<Rightarrow> Inl e
              | Inr (bins', weights') \<Rightarrow>
                  epochs_loop s dims bin_num0 total_bins calls_per_bin alpha n (bins', weights', k')))"

text \<open>\<open>np.finfo(float).eps\<close>, the machine epsilon of double precision.\<close>

definition float_eps :: real where
  "float_eps = 1 / 2 ^ 52"

text \<open>
  Rounding decides the control flow at one place: the number of entries of
  \<open>np.arange(start, stop, step)\<close>, which numpy computes in double precision as
  \<open>\<lceil>(stop - start) / step\<rceil>\<close>. There the model rounds as the program does. \<open>round_double x\<close>
  is the double nearest to \<open>x\<close> (ties to even), for \<open>x\<close> in the range of normal doubles:
  \<open>binade\<close> finds the exponent \<open>e\<close> with \<open>2 ^ e \<le> \<bar>x\<bar> < 2 ^ (e + 1)\<close>, and the 53-bit
  significand is rounded at \<open>2 ^ (e - 52)\<close>. Every arithmetic operation on doubles returns
  the rounded exact result.
\<close>

fun binade :: "nat \<Rightarrow> real \<Rightarrow> int" where
  "binade 0 x = 0"
| "binade (Suc fuel) x =
     (if 2 \<le> x then binade fuel (x / 2) + 1
      else if x < 1 then binade fuel (x * 2) - 1
      else 0)"

definition pow2 :: "int \<Rightarrow> real" where
  "pow2 e = (if 0 \<le> e then 2 ^ nat e else 1 / 2 ^ nat (- e))"

definition round_half_even :: "real \<Rightarrow> int" where
  "round_half_even y =
     (let f = \<lfloor>y\<rfloor>; r = y - of_int f
      in if r < 1 / 2 then f else if 1 / 2 < r then f + 1 else if even f then f else f + 1)"

definition round_double :: "real \<Rightarrow> real" where
  "round_double x =
     (if x = 0 then 0
      else let ulp = pow2 (binade 1100 \<bar>x\<bar> - 52)
           in sgn x * of_int (round_half_even (\<bar>x\<bar> / ulp)) * ulp)"

text \<open>The length of \<open>np.arange(start, stop, step)\<close>, for doubles \<open>start\<close>, \<open>stop\<close>, \<open>step\<close>.\<close>

definition np_arange_length :: "real \<Rightarrow> real \<Rightarrow> real \<Rightarrow> nat" where
  "np_arange_length start stop step = nat \<lceil>round_double (round_double (stop - start) / step)\<rceil>"

text \<open>
  The length of \<open>np.arange((1/bin_num), 1 + (1/bin_num), 1/bin_num)\<close>, each argument computed
  in double precision as the program computes it.
\<close>

definition uniform_length :: "int \<Rightarrow> nat" where
  "uniform_length bin_num0 =
     (let start = round_double (1 / real_of_int bin_num0);
          stop = round_double (1 + start);
          step = round_double (1 / real_of_int bin_num0)
      in np_arange_length start stop step)"

text \<open>
  The uniform start of training: the column \<open>vals\<close> of right bin borders, entry \<open>i\<close> of
  \<open>np.arange\<close> being \<open>start + i * step\<close> (taken exactly), with the extra last row 0 appended, and
  the column \<open>ws\<close> of weights.
\<close>

definition uniform_vals :: "int \<Rightarrow> real list" where
  "uniform_vals bin_num0 =
     map (\<lambda>i. 1 / real_of_int bin_num0 + real i * (1 / real_of_int bin_num0))
       [0 ..< uniform_length bin_num0]
     @ [0]"

definition uniform_ws :: "int \<Rightarrow> real list" where
  "uniform_ws bin_num0 = map (\<lambda>one. one / real_of_int bin_num0) (replicate (nat bin_num0) 1)"

text \<open>
  \<open>prepare_grid\<close> returns the outcome and the instance after the call. \<open>np.empty\<close> raises
  ValueError on a negative dimension, \<open>1/bin_num\<close> raises ZeroDivisionError for \<open>bin_num = 0\<close>,
  and the assignment \<open>bins[:, dim] = vals\<close> raises ValueError when \<open>vals\<close> has not
  \<open>bin_num + 1\<close> entries. The model state is written only after the last epoch. (With the
  outcome \<open>OutsideModel\<close> the instance returned is the one before the call, although the
  generator has advanced.)
\<close>

definition prepare_grid :: "vegas \<Rightarrow> int \<Rightarrow> int \<Rightarrow> int \<Rightarrow> real \<Rightarrow> (error + unit) \<times> vegas" where
  "prepare_grid s bins_per_dimension epochs calls_per_epoch alpha =
     (if alpha \<le> float_eps then (Inl (Exception ''To low alpha''), s)
      else
        let bin_num0 = bins_per_dimension;
            dims = length (fst (region s))
        in if bin_num0 < 0 then (Inl ValueError, s)
           else if bin_num0 = 0 then (Inl ZeroDivisionError, s)
           else
             let vals = uniform_vals bin_num0;
                 ws = uniform_ws bin_num0
             in if 0 < dims \<and> length vals \<noteq> nat (bin_num0 + 1) then (Inl ValueError, s)
                else
                  let bins0 = replicate dims vals;
                      weights = replicate dims ws;
                      total_bins = bin_num0 ^ dims;
                      calls_per_bin = min (calls_per_epoch div total_bins) 2
                  in case epochs_loop s dims bin_num0 total_bins calls_per_bin alpha (nat epochs)
                            (bins0, weights, draws s) of
                       Inl e \<Rightarrow> (Inl e, s)
                     | Inr (bins', weights', k) \<Rightarrow>
                         (Inr (),
                          s\<lparr>bin_num := Some bin_num0, dimensions := dims, bins := Some bins',
                            draws := k\<rparr>))"

subsection \<open>Integration: \<open>Vegas.integrate\<close>\<close>

text \<open>The loop \<open>for _ in range(total_bins)\<close>; the state is \<open>selected_bins\<close>, \<open>integral\<close> and the
  generator's call count.\<close>

fun integral_bins_loop ::
  "vegas \<Rightarrow> nat \<Rightarrow> matrix \<Rightarrow> int \<Rightarrow> int \<Rightarrow> nat \<Rightarrow> int list \<times> real \<times> nat
    \<Rightarrow> (int list \<times> real \<times> nat) option" where
  "integral_bins_loop s dims bins0 bin_num0 calls_per_bin 0 st = Some st"
| "integral_bins_loop s dims bins0 bin_num0 calls_per_bin (Suc n) (selected_bins, integral, k) =
     (case get_selected_subregion s bins0 selected_bins of
        None \<Rightarrow> None
      | Some selected_zone \<Rightarrow>
          let volume = volume_of selected_zone;
              (k', little_integral) =
                 little_integral_loop s dims selected_zone volume calls_per_bin (nat calls_per_bin)
                   (k, 0)
          in integral_bins_loop s dims bins0 bin_num0 calls_per_bin n
               (get_next_index selected_bins bin_num0, integral + little_integral, k'))"

text \<open>The loop \<open>for _ in range(times)\<close>; the state is \<open>evaluations\<close> and the call count.\<close>

fun evaluations_loop ::
  "vegas \<Rightarrow> nat \<Rightarrow> matrix \<Rightarrow> int \<Rightarrow> int \<Rightarrow> int \<Rightarrow> nat \<Rightarrow> real list \<times> nat
    \<Rightarrow> (real list \<times> nat) option" where
  "evaluations_loop s dims bins0 bin_num0 total_bins calls_per_bin 0 st = Some st"
| "evaluations_loop s dims bins0 bin_num0 total_bins calls_per_bin (Suc n) (evaluations, k) =
     (case integral_bins_loop s dims bins0 bin_num0 calls_per_bin (nat total_bins)
             (replicate dims 0, 0, k) of
        None \<Rightarrow> None
      | Some (_, integral, k') \<Rightarrow>
          evaluations_loop s dims bins0 bin_num0 total_bins calls_per_bin n
            (evaluations @ [integral], k'))"

text \<open>\<open>np.mean\<close> and \<open>np.var\<close> (with its default \<open>ddof = 0\<close>) of a list.\<close>

definition np_mean :: "real list \<Rightarrow> real" where
  "np_mean xs = sum_list xs / real (length xs)"

definition np_var :: "real list \<Rightarrow> real" where
  "np_var xs = np_mean (map (\<lambda>x. \<bar>x - np_mean xs\<bar> ^ 2) xs)"

text \<open>
  \<open>integrate\<close> returns the outcome and the instance after the call. Reading \<open>self.bins\<close> on an
  instance that was never trained raises AttributeError, and \<open>number_of_calls // total_bins\<close>
  raises ZeroDivisionError when \<open>total_bins\<close> is 0. The power \<open>** 0.5\<close> of the variance, which is
  never negative, is the square root.
\<close>

definition integrate :: "vegas \<Rightarrow> int \<Rightarrow> int \<Rightarrow> (error + real \<times> real) \<times> vegas" where
  "integrate s times0 number_of_calls =
     (if times0 \<le> 0 \<or> number_of_calls \<le> 0 then (Inl (Exception ''Incorrect params''), s)
      else
        case bins s of
          None \<Rightarrow> (Inl (AttributeError ''bins''), s)
        | Some bins0 \<Rightarrow>
            (case bin_num s of
               None \<Rightarrow> (Inl (AttributeError ''bin_num''), s)
             | Some bin_num0 \<Rightarrow>
                 let dims = dimensions s;
                     total_bins = bin_num0 ^ dims
                 in if total_bins = 0 then (Inl ZeroDivisionError, s)
                    else
                      let calls_per_bin = max (number_of_calls div total_bins) 2
                      in case evaluations_loop s dims bins0 bin_num0 total_bins calls_per_bin
                                (nat times0) ([], draws s) of
                           None \<Rightarrow> (Inl OutsideModel, s)
                         | Some (evaluations, k) \<Rightarrow>
                             (Inr (np_mean evaluations, sqrt (np_var evaluations)),
                              s\<lparr>draws := k\<rparr>)))"

section \<open>The invariant of training\<close>


section \<open>The loops of \<open>integrate\<close> as sums\<close>

text \<open>
  What the sampling loop of \<open>integrate\<close> adds for the bin at \<open>indices\<close>, and what the loop over
  the bins adds up, written as sums over the code's own index vectors and boxes. They serve the
  proofs only; \<open>k\<close> is the number of the generator's first call.
\<close>

definition loop_bin_estimate :: "vegas \<Rightarrow> nat \<Rightarrow> matrix \<Rightarrow> int \<Rightarrow> int list \<Rightarrow> nat \<Rightarrow> real" where
  "loop_bin_estimate s dims bins0 calls_per_bin indices k =
     (let box = the (get_selected_subregion s bins0 indices)
      in sum_list (map (\<lambda>c. volume_of box * func s (sample_point box (rand_point s dims (k + c)))
                            / real_of_int calls_per_bin)
           [0 ..< nat calls_per_bin]))"

definition loop_evaluation :: "vegas \<Rightarrow> nat \<Rightarrow> matrix \<Rightarrow> int \<Rightarrow> nat \<Rightarrow> int \<Rightarrow> nat \<Rightarrow> real" where
  "loop_evaluation s dims bins0 limit total_bins calls_per_bin k =
     sum_list (map (\<lambda>b. loop_bin_estimate s dims bins0 calls_per_bin
                            (advance b limit (replicate dims 0)) (k + b * nat calls_per_bin))
       [0 ..< total_bins])"

section \<open>Integration as the specification words it\<close>

text \<open>
  The definitions of this section follow the specification and use nothing of the model of
  the code. The region is a pair of vectors, the grid gives for each dimension its \<open>n\<close> edges
  (a further row that the grid may have is never read), \<open>f\<close> is the integrand and \<open>u k\<close> the
  \<open>k\<close>-th vector of the random source, \<open>u k d\<close> being its component \<open>d\<close>.

  Bin combination number \<open>b\<close> of the mixed-radix order, least significant first: component
  \<open>d\<close> is digit \<open>d\<close> of \<open>b\<close> in base \<open>n\<close>.
\<close>

definition spec_indices :: "nat \<Rightarrow> nat \<Rightarrow> nat \<Rightarrow> nat list" where
  "spec_indices n dims b = map (\<lambda>d. (b div n ^ d) mod n) [0 ..< dims]"

text \<open>
  The box of a bin combination: in dimension \<open>d\<close> it reaches from
  \<open>lower[d] + edge_lo * total_range\<close> to \<open>lower[d] + edge_hi * total_range\<close>, where \<open>edge_hi\<close> is the
  edge of the bin and \<open>edge_lo\<close> the edge of the bin before it, or the implicit 0 for bin 0.
\<close>

definition spec_subregion :: "box \<Rightarrow> matrix \<Rightarrow> nat list \<Rightarrow> box" where
  "spec_subregion total_region grid indices =
     (map (\<lambda>d. fst total_region ! d
             + (if 0 < indices ! d then grid ! d ! (indices ! d - 1) else 0)
               * (snd total_region ! d - fst total_region ! d))
        [0 ..< length indices],
      map (\<lambda>d. fst total_region ! d
             + grid ! d ! (indices ! d) * (snd total_region ! d - fst total_region ! d))
        [0 ..< length indices])"

text \<open>The volume of a box is the product of its side lengths.\<close>

definition spec_volume :: "box \<Rightarrow> real" where
  "spec_volume b = prod_list (map (\<lambda>d. snd b ! d - fst b ! d) [0 ..< length (fst b)])"

text \<open>The point of a box that a vector of the random source selects.\<close>

definition spec_point :: "box \<Rightarrow> (nat \<Rightarrow> real) \<Rightarrow> real list" where
  "spec_point b v = map (\<lambda>d. fst b ! d + v d * (snd b ! d - fst b ! d)) [0 ..< length (fst b)]"

text \<open>
  The estimate of one bin: the sum over its \<open>calls_per_bin\<close> draws of
  \<open>volume * f(point) / calls_per_bin\<close>, with the signed value of the integrand; the draws are
  the vectors \<open>k, k + 1, \<dots>\<close> of the random source.
\<close>

definition spec_bin_estimate ::
  "(real list \<Rightarrow> real) \<Rightarrow> (nat \<Rightarrow> nat \<Rightarrow> real) \<Rightarrow> box \<Rightarrow> nat \<Rightarrow> nat \<Rightarrow> real" where
  "spec_bin_estimate f u b calls_per_bin k =
     sum_list (map (\<lambda>c. spec_volume b * f (spec_point b (u (k + c))) / real calls_per_bin)
        [0 ..< calls_per_bin])"

text \<open>One evaluation: the sum of the estimates of all \<open>n ^ dims\<close> bin combinations.\<close>

definition spec_evaluation ::
  "box \<Rightarrow> matrix \<Rightarrow> (real list \<Rightarrow> real) \<Rightarrow> (nat \<Rightarrow> nat \<Rightarrow> real) \<Rightarrow> nat \<Rightarrow> nat \<Rightarrow> nat \<Rightarrow> nat
    \<Rightarrow> real" where
  "spec_evaluation total_region grid f u n dims calls_per_bin k =
     sum_list (map (\<lambda>b. spec_bin_estimate f u
                            (spec_subregion total_region grid (spec_indices n dims b))
                            calls_per_bin (k + b * calls_per_bin))
        [0 ..< n ^ dims])"

text \<open>
  The mean and the population variance (the squared deviations from the mean, divided by the
  number of values, not by one less).
\<close>

definition spec_mean :: "real list \<Rightarrow> real" where
  "spec_mean xs = sum_list xs / real (length xs)"

definition spec_population_variance :: "real list \<Rightarrow> real" where
  "spec_population_variance xs = sum_list (map (\<lambda>x. (x - spec_mean xs) ^ 2) xs) / real (length xs)"

text \<open>
  The result of integration: \<open>calls_per_bin\<close> is \<open>max(\<lfloor>number_of_calls / total_bins\<rfloor>, 2)\<close>, the
  \<open>times\<close> evaluations use the random source one after the other, starting at vector \<open>k\<close>, and
  the result is their mean with the square root of their population variance.
\<close>

definition spec_calls_per_bin :: "nat \<Rightarrow> nat \<Rightarrow> nat" where
  "spec_calls_per_bin number_of_calls total_bins = max (number_of_calls div total_bins) 2"

definition spec_evaluations ::
  "box \<Rightarrow> matrix \<Rightarrow> (real list \<Rightarrow> real) \<Rightarrow> (nat \<Rightarrow> nat \<Rightarrow> real) \<Rightarrow> nat \<Rightarrow> nat \<Rightarrow> nat \<Rightarrow> nat
    \<Rightarrow> nat \<Rightarrow> real list" where
  "spec_evaluations total_region grid f u n dims times0 number_of_calls k =
     (let calls_per_bin = spec_calls_per_bin number_of_calls (n ^ dims)
      in map (\<lambda>j. spec_evaluation total_region grid f u n dims calls_per_bin
                     (k + j * (n ^ dims * calls_per_bin)))
           [0 ..< times0])"

definition spec_integrate ::
  "box \<Rightarrow> matrix \<Rightarrow> (real list \<Rightarrow> real) \<Rightarrow> (nat \<Rightarrow> nat \<Rightarrow> real) \<Rightarrow> nat \<Rightarrow> nat \<Rightarrow> nat \<Rightarrow> nat
    \<Rightarrow> nat \<Rightarrow> real \<times> real" where
  "spec_integrate total_region grid f u n dims times0 number_of_calls k =
     (let evaluations = spec_evaluations total_region grid f u n dims times0 number_of_calls k
      in (spec_mean evaluations, sqrt (spec_population_variance evaluations)))"


chapter \<open>The program in double precision\<close>

text \<open>
  The definitions above compute with real numbers. The program computes with IEEE 754
  doubles, where a small product underflows to zero and a large quotient overflows to
  infinity; numpy, in its default error state, warns at a division by zero or an invalid
  operation and goes on with \<open>inf\<close> or \<open>nan\<close>. This chapter transcribes \<open>resize_grid\<close> and
  \<open>prepare_grid\<close> a second time, every arithmetic operation rounded as the hardware rounds
  it, to see what the program stores where the two arithmetics part.
\<close>

section \<open>Doubles\<close>

text \<open>
  A double is a finite number, negative zero, an infinity or NaN. \<open>Finite x\<close> stands for the
  double whose value is \<open>x\<close>, \<open>Finite 0\<close> for positive zero.
\<close>

datatype double = Finite real | NegZero | PInf | NInf | NaN

fun is_zero :: "double \<Rightarrow> bool" where
  "is_zero (Finite x) = (x = 0)"
| "is_zero NegZero = True"
| "is_zero _ = False"

fun is_inf :: "double \<Rightarrow> bool" where
  "is_inf PInf = True"
| "is_inf NInf = True"
| "is_inf _ = False"

text \<open>The sign bit.\<close>

fun negative :: "double \<Rightarrow> bool" where
  "negative (Finite x) = (x < 0)"
| "negative NegZero = True"
| "negative NInf = True"
| "negative _ = False"

text \<open>The value of a finite double.\<close>

fun value_of :: "double \<Rightarrow> real" where
  "value_of (Finite x) = x"
| "value_of _ = 0"

definition signed_zero :: "bool \<Rightarrow> double" where
  "signed_zero neg = (if neg then NegZero else Finite 0)"

definition signed_inf :: "bool \<Rightarrow> double" where
  "signed_inf neg = (if neg then NInf else PInf)"

text \<open>
  Rounding to nearest, ties to even, of a real number other than 0. Below \<open>2\<^sup>-\<^sup>1\<^sup>0\<^sup>2\<^sup>2\<close> the
  doubles are the multiples of \<open>2\<^sup>-\<^sup>1\<^sup>0\<^sup>7\<^sup>4\<close> (gradual underflow), and a number that rounds to
  the multiple 0 becomes a zero with the number's sign. From \<open>2\<^sup>-\<^sup>1\<^sup>0\<^sup>2\<^sup>2\<close> on, the 53-bit
  significand is rounded (\<^const>\<open>round_double\<close>), and a number that rounds to \<open>2\<^sup>1\<^sup>0\<^sup>2\<^sup>4\<close> or more
  becomes an infinity.
\<close>

definition to_double :: "real \<Rightarrow> double" where
  "to_double x =
     (let a = \<bar>x\<bar>;
          y = (if a < 1 / 2 ^ 1022 then of_int (round_half_even (a * 2 ^ 1074)) / 2 ^ 1074
               else if 2 ^ 1024 \<le> a then 2 ^ 1024
               else round_double a)
      in if 2 ^ 1024 \<le> y then signed_inf (x < 0)
         else if y = 0 then signed_zero (x < 0)
         else Finite (sgn x * y))"

text \<open>
  The four operations. An exact sum of 0 is positive zero, except for the sum of two
  negative zeros; a product or quotient has the sign that its operands' signs give.
\<close>

definition dneg :: "double \<Rightarrow> double" where
  "dneg a =
     (case a of
        Finite x \<Rightarrow> if x = 0 then NegZero else Finite (- x)
      | NegZero \<Rightarrow> Finite 0
      | PInf \<Rightarrow> NInf
      | NInf \<Rightarrow> PInf
      | NaN \<Rightarrow> NaN)"

definition dabs :: "double \<Rightarrow> double" where
  "dabs a =
     (case a of
        Finite x \<Rightarrow> Finite \<bar>x\<bar>
      | NegZero \<Rightarrow> Finite 0
      | PInf \<Rightarrow> PInf
      | NInf \<Rightarrow> PInf
      | NaN \<Rightarrow> NaN)"

definition dadd :: "double \<Rightarrow> double \<Rightarrow> double" where
  "dadd a b =
     (if a = NaN \<or> b = NaN then NaN
      else if is_inf a then (if is_inf b \<and> a \<noteq> b then NaN else a)
      else if is_inf b then b
      else if is_zero a \<and> is_zero b then (if a = NegZero \<and> b = NegZero then NegZero else Finite 0)
      else if value_of a + value_of b = 0 then Finite 0
      else to_double (value_of a + value_of b))"

definition dsub :: "double \<Rightarrow> double \<Rightarrow> double" where
  "dsub a b = dadd a (dneg b)"

definition dmul :: "double \<Rightarrow> double \<Rightarrow> double" where
  "dmul a b =
     (if a = NaN \<or> b = NaN then NaN
      else if (is_inf a \<and> is_zero b) \<or> (is_zero a \<and> is_inf b) then NaN
      else if is_inf a \<or> is_inf b then signed_inf (negative a \<noteq> negative b)
      else if is_zero a \<or> is_zero b then signed_zero (negative a \<noteq> negative b)
      else to_double (value_of a * value_of b))"

definition ddiv :: "double \<Rightarrow> double \<Rightarrow> double" where
  "ddiv a b =
     (if a = NaN \<or> b = NaN then NaN
      else if is_inf a then (if is_inf b then NaN else signed_inf (negative a \<noteq> negative b))
      else if is_inf b then signed_zero (negative a \<noteq> negative b)
      else if is_zero b then (if is_zero a then NaN else signed_inf (negative a \<noteq> negative b))
      else if is_zero a then signed_zero (negative a \<noteq> negative b)
      else to_double (value_of a / value_of b))"

text \<open>The comparison \<open>a <= b\<close>, which is false when an operand is NaN.\<close>

definition dle :: "double \<Rightarrow> double \<Rightarrow> bool" where
  "dle a b =
     (if a = NaN \<or> b = NaN then False
      else if a = NInf \<or> b = PInf then True
      else if a = PInf \<or> b = NInf then False
      else value_of a \<le> value_of b)"

text \<open>
  \<open>np.sum\<close> and \<open>np.prod\<close> along an axis: the first entry, then the others in order. (For a
  sum numpy may add the entries after the first in another order when there are more than
  two and the axis is contiguous in memory; with one or two entries there is one order.)
\<close>

definition dsum :: "double list \<Rightarrow> double" where
  "dsum xs = (case xs of [] \<Rightarrow> Finite 0 | x # ys \<Rightarrow> foldl dadd x ys)"

definition dprod :: "double list \<Rightarrow> double" where
  "dprod xs = (case xs of [] \<Rightarrow> Finite 1 | x # ys \<Rightarrow> foldl dmul x ys)"

section \<open>\<open>Vegas.resize_grid\<close> on doubles\<close>

text \<open>
  The array expressions of \<open>resize_grid\<close> on one column, line by line. No operation of
  numpy raises here: a division by zero gives an infinity or NaN, which the next operations
  carry on. \<open>resize_denominators\<close> is the array \<open>alpha * mean + subintegrals\<close>, the divisors of
  \<open>rel_weights\<close>.
\<close>

definition resize_denominators :: "double \<Rightarrow> double list \<Rightarrow> double list" where
  "resize_denominators alpha subintegrals =
     (let mean0 = ddiv (dsum subintegrals) (Finite (real (length subintegrals)));
          mean = (if is_zero mean0 then Finite 1 else mean0)
      in map (\<lambda>s. dadd (dmul alpha mean) s) subintegrals)"

definition resize_weights_double :: "double \<Rightarrow> double list \<Rightarrow> double list \<Rightarrow> double list" where
  "resize_weights_double alpha old_weights subintegrals =
     (let rel_weights = map (\<lambda>d. ddiv (Finite 1) d) (resize_denominators alpha subintegrals);
          total = dsum rel_weights;
          rel_weights = map (\<lambda>r. ddiv r total) rel_weights;
          combined_weights = map2 dmul old_weights rel_weights;
          combined_total = dsum combined_weights
      in map (\<lambda>c. ddiv c combined_total) combined_weights)"

text \<open>The loop \<open>grid[i, dim] = grid[i-1, dim] + w\<close> on one column, as \<^const>\<open>resize_bins\<close>.\<close>

fun resize_bins_double :: "double list \<Rightarrow> nat \<Rightarrow> double list \<Rightarrow> double list option" where
  "resize_bins_double grid i [] = Some grid"
| "resize_bins_double grid i (w # ws) =
     (case wrap_index (length grid) (int i - 1) of
        None \<Rightarrow> None
      | Some j \<Rightarrow>
          if i < length grid then resize_bins_double (grid[i := dadd (grid ! j) w]) (Suc i) ws
          else None)"

text \<open>
  \<open>resize_grid\<close>, for arrays of the shapes that \<open>prepare_grid\<close> builds: as many columns in
  each array as the grid has, and in every column of \<open>old_weights\<close> and \<open>subintegrals\<close> one
  entry less than in the grid's.
\<close>

definition resize_grid_double ::
  "double list list \<Rightarrow> double list list \<Rightarrow> double list list \<Rightarrow> double
    \<Rightarrow> error + (double list list \<times> double list list)" where
  "resize_grid_double grid old_weights subintegrals alpha =
     (if length old_weights \<noteq> length grid \<or> length subintegrals \<noteq> length grid
         \<or> list_ex (\<lambda>(ws, col). length ws \<noteq> length col \<or> col = []) (zip old_weights subintegrals)
      then Inl OutsideModel
      else
        let combined_weights = map2 (resize_weights_double alpha) old_weights subintegrals
        in case those (map2 (\<lambda>col ws. resize_bins_double col 0 ws) grid combined_weights) of
             None \<Rightarrow> Inl IndexError
           | Some grid' \<Rightarrow> Inr (grid', combined_weights))"

section \<open>\<open>Vegas.prepare_grid\<close> on doubles\<close>

text \<open>An instance whose region, integrand, random numbers and grid are doubles.\<close>

record vegas_double =
  region_d :: "double list \<times> double list"
  func_d :: "double list \<Rightarrow> double"
  dimensions_d :: nat
  rand_d :: "nat \<Rightarrow> nat \<Rightarrow> double"
  draws_d :: nat
  bin_num_d :: "int option"
  bins_d :: "double list list option"

text \<open>The body of the loop of \<open>_get_selected_region\<close>, as \<^const>\<open>selected_interval\<close>.\<close>

definition selected_interval_double ::
  "double \<Rightarrow> double \<Rightarrow> double list \<Rightarrow> int \<Rightarrow> (double \<times> double) option" where
  "selected_interval_double lo hi col index =
     (let tot_range = dsub hi lo;
          max_index = int (length col) - 1;
          lower_index = (if index = 0 then max_index else index - 1)
      in case (wrap_index (length col) lower_index, wrap_index (length col) index) of
           (Some l, Some u) \<Rightarrow>
             Some (dadd lo (dmul (col ! l) tot_range), dadd lo (dmul (col ! u) tot_range))
         | _ \<Rightarrow> None)"

definition get_selected_region_double ::
  "double list \<times> double list \<Rightarrow> double list list \<Rightarrow> int list
    \<Rightarrow> (double list \<times> double list) option" where
  "get_selected_region_double total_region bins0 indices =
     (if length (fst total_region) < length indices \<or> length (snd total_region) < length indices
         \<or> length bins0 < length indices
      then None
      else map_option (\<lambda>ivs. (map fst ivs, map snd ivs))
        (those (map (\<lambda>dim. selected_interval_double (fst total_region ! dim)
                        (snd total_region ! dim) (bins0 ! dim) (indices ! dim))
                  [0 ..< length indices])))"

text \<open>
  The loop \<open>for step in range(calls_per_bin)\<close>, as \<^const>\<open>importance_loop\<close>:
  \<open>mean_importance += volume * np.abs(call_res) / calls_per_bin\<close> multiplies, then divides,
  then adds.
\<close>

fun importance_loop_double ::
  "vegas_double \<Rightarrow> nat \<Rightarrow> double list \<times> double list \<Rightarrow> double \<Rightarrow> int \<Rightarrow> nat \<Rightarrow> nat \<times> double
    \<Rightarrow> nat \<times> double" where
  "importance_loop_double s dims selected_zone volume calls_per_bin 0 (k, mean_importance) =
     (k, mean_importance)"
| "importance_loop_double s dims selected_zone volume calls_per_bin (Suc n) (k, mean_importance) =
     (let point = map (rand_d s k) [0 ..< dims];
          width = map2 dsub (snd selected_zone) (fst selected_zone);
          call_res = func_d s (map2 dadd (fst selected_zone) (map2 dmul point width))
      in importance_loop_double s dims selected_zone volume calls_per_bin n
           (Suc k,
            dadd mean_importance
              (ddiv (dmul volume (dabs call_res)) (Finite (real_of_int calls_per_bin)))))"

definition add_importance_double ::
  "double list list \<Rightarrow> int list \<Rightarrow> double \<Rightarrow> double list list option" where
  "add_importance_double distrib selected_bins mean_importance =
     those (map2 (\<lambda>i col. case wrap_index (length col) i of
                              None \<Rightarrow> None
                            | Some r \<Rightarrow> Some (col[r := dadd (col ! r) mean_importance]))
              selected_bins distrib)"

text \<open>The loop \<open>for _ in range(total_bins)\<close> of one epoch, as \<^const>\<open>training_bins_loop\<close>.\<close>

fun training_bins_loop_double ::
  "vegas_double \<Rightarrow> nat \<Rightarrow> double list list \<Rightarrow> int \<Rightarrow> int \<Rightarrow> nat
    \<Rightarrow> int list \<times> double list list \<times> nat \<Rightarrow> (int list \<times> double list list \<times> nat) option" where
  "training_bins_loop_double s dims bins0 bin_num0 calls_per_bin 0 st = Some st"
| "training_bins_loop_double s dims bins0 bin_num0 calls_per_bin (Suc n) (selected_bins, distrib, k) =
     (case get_selected_region_double (region_d s) bins0 selected_bins of
        None \<Rightarrow> None
      | Some selected_zone \<Rightarrow>
          let volume = dprod (map2 dsub (snd selected_zone) (fst selected_zone));
              (k', mean_importance) =
                 importance_loop_double s dims selected_zone volume calls_per_bin
                   (nat calls_per_bin) (k, Finite 0)
          in case add_importance_double distrib selected_bins mean_importance of
               None \<Rightarrow> None
             | Some distrib' \<Rightarrow>
                 training_bins_loop_double s dims bins0 bin_num0 calls_per_bin n
                   (get_next_index selected_bins bin_num0, distrib', k'))"

text \<open>The loop \<open>for epoch in range(epochs)\<close>, as \<^const>\<open>epochs_loop\<close>.\<close>

fun epochs_loop_double ::
  "vegas_double \<Rightarrow> nat \<Rightarrow> int \<Rightarrow> int \<Rightarrow> int \<Rightarrow> double \<Rightarrow> nat
    \<Rightarrow> double list list \<times> double list list \<times> nat
    \<Rightarrow> error + (double list list \<times> double list list \<times> nat)" where
  "epochs_loop_double s dims bin_num0 total_bins calls_per_bin alpha 0 st = Inr st"
| "epochs_loop_double s dims bin_num0 total_bins calls_per_bin alpha (Suc n) (bins0, weights, k) =
     (let selected_bins = replicate dims 0;
          distrib = replicate dims (replicate (nat bin_num0) (Finite 0))
      in case training_bins_loop_double s dims bins0 bin_num0 calls_per_bin (nat total_bins)
                (selected_bins, distrib, k) of
           None \<Rightarrow> Inl OutsideModel
         | Some (_, distrib', k') \<Rightarrow>
             (case resize_grid_double bins0 weights distrib' alpha of
                Inl e \<Rightarrow> Inl e
              | Inr (bins', weights') \<Rightarrow>
                  epochs_loop_double s dims bin_num0 total_bins calls_per_bin alpha n
                    (bins', weights', k')))"

text \<open>
  The uniform start. \<open>np.arange(start, stop, step)\<close> stores \<open>start\<close>, then \<open>start + step\<close>, and
  from the third entry on \<open>start + i * delta\<close>, where \<open>delta\<close> is the difference of the first
  two entries; its length is \<^const>\<open>uniform_length\<close>. \<open>ws\<close> is \<open>np.ones(bin_num) / bin_num\<close>.
\<close>

definition uniform_vals_double :: "int \<Rightarrow> double list" where
  "uniform_vals_double bin_num0 =
     (let start = to_double (1 / real_of_int bin_num0);
          second = dadd start start;
          delta = dsub second start
      in map (\<lambda>i. if i = 0 then start else if i = 1 then second
                   else dadd start (dmul (Finite (real i)) delta))
           [0 ..< uniform_length bin_num0]
         @ [Finite 0])"

definition uniform_ws_double :: "int \<Rightarrow> double list" where
  "uniform_ws_double bin_num0 = replicate (nat bin_num0) (to_double (1 / real_of_int bin_num0))"

text \<open>\<open>prepare_grid\<close>, as \<^const>\<open>prepare_grid\<close>.\<close>

definition prepare_grid_double ::
  "vegas_double \<Rightarrow> int \<Rightarrow> int \<Rightarrow> int \<Rightarrow> double \<Rightarrow> (error + unit) \<times> vegas_double" where
  "prepare_grid_double s bins_per_dimension epochs calls_per_epoch alpha =
     (if dle alpha (Finite float_eps) then (Inl (Exception ''To low alpha''), s)
      else
        let bin_num0 = bins_per_dimension;
            dims = length (fst (region_d s))
        in if bin_num0 < 0 then (Inl ValueError, s)
           else if bin_num0 = 0 then (Inl ZeroDivisionError, s)
           else
             let vals = uniform_vals_double bin_num0;
                 ws = uniform_ws_double bin_num0
             in if 0 < dims \<and> length vals \<noteq> nat (bin_num0 + 1) then (Inl ValueError, s)
                else
                  let bins0 = replicate dims vals;
                      weights = replicate dims ws;
                      total_bins = bin_num0 ^ dims;
                      calls_per_bin = min (calls_per_epoch div total_bins) 2
                  in case epochs_loop_double s dims bin_num0 total_bins calls_per_bin alpha
                            (nat epochs) (bins0, weights, draws_d s) of
                       Inl e \<Rightarrow> (Inl e, s)
                     | Inr (bins', weights', k) \<Rightarrow>
                         (Inr (),
                          s\<lparr>bin_num_d := Some bin_num0, dimensions_d := dims, bins_d := Some bins',
                            draws_d := k\<rparr>))"
chapter \<open>Properties\<close>

section \<open>The index enumerator\<close>

subsection \<open>One step is an increment modulo \<open>limit ^ dims\<close>\<close>

lemma get_next_index_length [simp]: "length (get_next_index xs limit) = length xs"
  by (induction xs) (auto simp: Let_def)

lemma get_next_index_valid:
  assumes "1 \<le> limit" "valid_indices limit dims xs"
  shows "valid_indices limit dims (get_next_index xs limit)"
  using assms(2)
proof (induction xs arbitrary: dims)
  case Nil
  then show ?case by simp
next
  case (Cons x xs)
  from Cons.prems have tl: "valid_indices limit (length xs) xs"
    by (simp add: valid_indices_def)
  have v: "0 \<le> (x + 1) mod limit" "(x + 1) mod limit < limit"
    using assms(1) by simp_all
  from Cons.IH [OF tl] Cons.prems v show ?case
    by (simp add: valid_indices_def Let_def)
qed

lemma index_value_bounds:
  assumes "1 \<le> limit" "valid_indices limit dims xs"
  shows "0 \<le> index_value limit xs \<and> index_value limit xs < limit ^ dims"
  using assms(2)
proof (induction xs arbitrary: dims)
  case Nil
  then show ?case by (simp add: valid_indices_def)
next
  case (Cons x xs)
  from Cons.prems have tl: "valid_indices limit (length xs) xs"
    and x: "0 \<le> x" "x < limit" and d: "dims = Suc (length xs)"
    by (auto simp: valid_indices_def)
  from Cons.IH [OF tl] have v: "0 \<le> index_value limit xs"
    and w: "index_value limit xs + 1 \<le> limit ^ length xs"
    by simp_all
  have "limit * (index_value limit xs + 1) \<le> limit * limit ^ length xs"
    using w assms(1) by (intro mult_left_mono) simp_all
  then have "x + limit * index_value limit xs < limit * limit ^ length xs"
    using x by (simp add: algebra_simps)
  moreover have "0 \<le> limit * index_value limit xs"
    using v assms(1) by simp
  ultimately show ?case
    using x d by simp
qed

lemma index_value_step:
  assumes "1 \<le> limit" "valid_indices limit dims xs"
  shows "index_value limit (get_next_index xs limit) = (index_value limit xs + 1) mod limit ^ dims"
  using assms(2)
proof (induction xs arbitrary: dims)
  case Nil
  then show ?case by (simp add: valid_indices_def)
next
  case (Cons x xs)
  from Cons.prems have tl: "valid_indices limit (length xs) xs"
    and x: "0 \<le> x" "x < limit" and d: "dims = Suc (length xs)"
    by (auto simp: valid_indices_def)
  let ?V = "index_value limit xs"
  show ?case
  proof (cases "x + 1 < limit")
    case True
    then have m: "(x + 1) mod limit = x + 1"
      using x by simp
    have "valid_indices limit dims ((x + 1) # xs)"
      using Cons.prems True x by (simp add: valid_indices_def)
    from index_value_bounds [OF assms(1) this]
    have "0 \<le> x + 1 + limit * ?V" "x + 1 + limit * ?V < limit ^ dims"
      by simp_all
    then have "(index_value limit (x # xs) + 1) mod limit ^ dims = x + 1 + limit * ?V"
      by (simp add: add.commute add.left_commute)
    moreover have "x + 1 \<noteq> 0"
      using x by simp
    ultimately show ?thesis
      using m by (simp add: Let_def)
  next
    case False
    then have xl: "x + 1 = limit"
      using x by simp
    then have m: "(x + 1) mod limit = 0"
      by simp
    have "x + limit * ?V + 1 = limit * (?V + 1)"
      using xl by (simp add: algebra_simps)
    then have "(index_value limit (x # xs) + 1) mod limit ^ dims
        = (limit * (?V + 1)) mod (limit * limit ^ length xs)"
      using d by simp
    also have "\<dots> = limit * ((?V + 1) mod limit ^ length xs)"
      by (rule mult_mod_right [symmetric])
    finally show ?thesis
      using m Cons.IH [OF tl] by (simp add: Let_def)
  qed
qed

lemma index_value_inj:
  assumes "1 \<le> limit" "valid_indices limit dims xs" "valid_indices limit dims ys"
    and "index_value limit xs = index_value limit ys"
  shows "xs = ys"
  using assms(2-)
proof (induction xs arbitrary: dims ys)
  case Nil
  then show ?case by (simp add: valid_indices_def)
next
  case (Cons x xs)
  then obtain y ys' where ys: "ys = y # ys'"
    by (cases ys) (auto simp: valid_indices_def)
  from Cons.prems ys have vx: "valid_indices limit (length xs) xs"
    and vy: "valid_indices limit (length xs) ys'"
    and x: "0 \<le> x" "x < limit" and y: "0 \<le> y" "y < limit"
    by (auto simp: valid_indices_def)
  from Cons.prems(3) ys
  have e: "x + limit * index_value limit xs = y + limit * index_value limit ys'"
    by simp
  have "(x + limit * index_value limit xs) mod limit = x"
    "(y + limit * index_value limit ys') mod limit = y"
    using x y by simp_all
  with e have xy: "x = y"
    by simp
  with e assms(1) have "index_value limit xs = index_value limit ys'"
    by simp
  from Cons.IH [OF vx vy this] xy ys show ?case
    by simp
qed

subsection \<open>The orbit of the zero vector\<close>

lemma valid_indices_zero: "1 \<le> limit \<Longrightarrow> valid_indices limit dims (replicate dims 0)"
  by (simp add: valid_indices_def list_all_iff)

lemma index_value_zero [simp]: "index_value limit (replicate dims 0) = 0"
  by (induction dims) simp_all

lemma advance_Suc: "advance (Suc k) limit xs = get_next_index (advance k limit xs) limit"
  by (simp add: advance_def)

lemma advance_valid:
  assumes "1 \<le> limit" "valid_indices limit dims xs"
  shows "valid_indices limit dims (advance k limit xs)"
proof (induction k)
  case 0
  show ?case using assms(2) by (simp add: advance_def)
next
  case (Suc k)
  then show ?case
    by (simp add: advance_Suc get_next_index_valid [OF assms(1)])
qed

lemma advance_value:
  assumes "1 \<le> limit" "valid_indices limit dims xs"
  shows "index_value limit (advance k limit xs) = (index_value limit xs + int k) mod limit ^ dims"
proof (induction k)
  case 0
  from index_value_bounds [OF assms] show ?case
    by (simp add: advance_def)
next
  case (Suc k)
  have "index_value limit (advance (Suc k) limit xs)
      = (index_value limit (advance k limit xs) + 1) mod limit ^ dims"
    by (simp add: advance_Suc index_value_step [OF assms(1) advance_valid [OF assms]])
  also have "\<dots> = ((index_value limit xs + int k) mod limit ^ dims + 1) mod limit ^ dims"
    by (simp add: Suc.IH)
  also have "\<dots> = (index_value limit xs + int (Suc k)) mod limit ^ dims"
    by (simp add: mod_add_left_eq add.assoc add.commute [of 1])
  finally show ?case .
qed

lemma advance_zero_value:
  assumes "1 \<le> limit" "k < nat limit ^ dims"
  shows "index_value limit (advance k limit (replicate dims 0)) = int k"
proof -
  have "int k < int (nat limit ^ dims)"
    using assms(2) by (simp only: of_nat_less_iff)
  then have "int k < limit ^ dims"
    using assms(1) by simp
  then show ?thesis
    using advance_value [OF assms(1) valid_indices_zero [OF assms(1)], where k = k and dims = dims]
    by simp
qed

lemma int_total: "1 \<le> limit \<Longrightarrow> int (nat limit ^ dims) = limit ^ dims"
  by simp

lemma advance_zero_inj:
  assumes "1 \<le> limit" "j < nat limit ^ dims" "k < nat limit ^ dims"
    and "advance j limit (replicate dims 0) = advance k limit (replicate dims 0)"
  shows "j = k"
proof -
  have "int j = index_value limit (advance j limit (replicate dims 0))"
    by (rule advance_zero_value [OF assms(1,2), symmetric])
  also have "\<dots> = index_value limit (advance k limit (replicate dims 0))"
    by (simp only: assms(4))
  also have "\<dots> = int k"
    by (rule advance_zero_value [OF assms(1,3)])
  finally show ?thesis by simp
qed

lemma advance_zero_reaches:
  assumes "1 \<le> limit" "valid_indices limit dims xs"
  shows "\<exists>k < nat limit ^ dims. advance k limit (replicate dims 0) = xs"
proof -
  let ?k = "nat (index_value limit xs)"
  from index_value_bounds [OF assms]
  have b: "0 \<le> index_value limit xs" "index_value limit xs < limit ^ dims"
    by simp_all
  then have "int ?k < int (nat limit ^ dims)"
    using assms(1) by simp
  then have k: "?k < nat limit ^ dims"
    by (simp only: of_nat_less_iff)
  have "index_value limit (advance ?k limit (replicate dims 0)) = index_value limit xs"
    using advance_zero_value [OF assms(1) k] b by simp
  from index_value_inj [OF assms(1) advance_valid [OF assms(1) valid_indices_zero [OF assms(1)]]
      assms(2) this]
  have "advance ?k limit (replicate dims 0) = xs" .
  with k show ?thesis by blast
qed

lemma advance_zero_closes:
  assumes "1 \<le> limit"
  shows "advance (nat limit ^ dims) limit (replicate dims 0) = replicate dims 0"
proof -
  have "index_value limit (advance (nat limit ^ dims) limit (replicate dims 0))
      = (0 + int (nat limit ^ dims)) mod limit ^ dims"
    using advance_value [OF assms valid_indices_zero [OF assms], where dims = dims] by simp
  also have "\<dots> = 0"
    by (simp only: int_total [OF assms] add_0 mod_self)
  finally have "index_value limit (advance (nat limit ^ dims) limit (replicate dims 0))
      = index_value limit (replicate dims 0)"
    by simp
  from index_value_inj [OF assms advance_valid [OF assms valid_indices_zero [OF assms]]
      valid_indices_zero [OF assms] this]
  show ?thesis .
qed

lemma advance_zero_not_early:
  assumes "1 \<le> limit" "0 < k" "k < nat limit ^ dims"
  shows "advance k limit (replicate dims 0) \<noteq> replicate dims 0"
proof
  assume "advance k limit (replicate dims 0) = replicate dims 0"
  then have "index_value limit (advance k limit (replicate dims 0)) = 0"
    by simp
  with advance_zero_value [OF assms(1,3)] assms(2) show False
    by simp
qed

text \<open>
  Claim C3. For every \<open>limit \<ge> 1\<close> (and every number of dimensions), the vectors reached from
  the all-zero vector by fewer than \<open>limit ^ dims\<close> calls of \<open>get_next_index\<close> are pairwise
  different and are exactly the vectors of \<open>[0, limit) ^ dims\<close>; call number \<open>limit ^ dims\<close>
  returns to the all-zero vector and no earlier call does; and one call on a valid vector
  increments component 0 modulo \<open>limit\<close>, carries into the rest only when that component
  wrapped to 0, and so adds one to the little-endian value modulo \<open>limit ^ dims\<close>.
\<close>

theorem get_next_index_cycle:
  assumes "1 \<le> limit"
  shows "inj_on (\<lambda>k. advance k limit (replicate dims 0)) {..< nat limit ^ dims}
    \<and> (\<lambda>k. advance k limit (replicate dims 0)) ` {..< nat limit ^ dims}
        = {xs. valid_indices limit dims xs}
    \<and> advance (nat limit ^ dims) limit (replicate dims 0) = replicate dims 0
    \<and> (\<forall>k. 0 < k \<and> k < nat limit ^ dims \<longrightarrow>
          advance k limit (replicate dims 0) \<noteq> replicate dims 0)
    \<and> (\<forall>x xs. get_next_index (x # xs) limit
          = (x + 1) mod limit # (if (x + 1) mod limit = 0 then get_next_index xs limit else xs))
    \<and> (\<forall>xs. valid_indices limit dims xs \<longrightarrow>
          valid_indices limit dims (get_next_index xs limit)
          \<and> index_value limit (get_next_index xs limit)
              = (index_value limit xs + 1) mod limit ^ dims)"
proof (intro conjI allI impI)
  show "inj_on (\<lambda>k. advance k limit (replicate dims 0)) {..< nat limit ^ dims}"
    by (rule inj_onI) (blast intro: advance_zero_inj [OF assms])
next
  show "(\<lambda>k. advance k limit (replicate dims 0)) ` {..< nat limit ^ dims}
      = {xs. valid_indices limit dims xs}"
  proof (intro set_eqI iffI)
    fix xs
    assume "xs \<in> (\<lambda>k. advance k limit (replicate dims 0)) ` {..< nat limit ^ dims}"
    then show "xs \<in> {xs. valid_indices limit dims xs}"
      using advance_valid [OF assms valid_indices_zero [OF assms]] by auto
  next
    fix xs
    assume "xs \<in> {xs. valid_indices limit dims xs}"
    then have "valid_indices limit dims xs" by simp
    from advance_zero_reaches [OF assms this]
    show "xs \<in> (\<lambda>k. advance k limit (replicate dims 0)) ` {..< nat limit ^ dims}"
      by auto
  qed
next
  show "advance (nat limit ^ dims) limit (replicate dims 0) = replicate dims 0"
    by (rule advance_zero_closes [OF assms])
next
  fix k
  assume "0 < k \<and> k < nat limit ^ dims"
  then show "advance k limit (replicate dims 0) \<noteq> replicate dims 0"
    using advance_zero_not_early [OF assms] by blast
next
  fix x xs
  show "get_next_index (x # xs) limit
      = (x + 1) mod limit # (if (x + 1) mod limit = 0 then get_next_index xs limit else xs)"
    by (simp add: Let_def)
next
  fix xs
  assume "valid_indices limit dims xs"
  then show "valid_indices limit dims (get_next_index xs limit)"
    by (rule get_next_index_valid [OF assms])
next
  fix xs
  assume "valid_indices limit dims xs"
  then show "index_value limit (get_next_index xs limit)
      = (index_value limit xs + 1) mod limit ^ dims"
    by (rule index_value_step [OF assms])
qed

theorem get_next_index_cycle_witness:
  "(1::int) \<le> 3
   \<and> map (\<lambda>k. advance k 3 (replicate 2 0)) [0 ..< 10]
       = [[0,0], [1,0], [2,0], [0,1], [1,1], [2,1], [0,2], [1,2], [2,2], [0,0]]
   \<and> advance (nat 3 ^ 2) 3 (replicate 2 0) = replicate 2 0
   \<and> inj_on (\<lambda>k. advance k 3 (replicate 2 0)) {..< nat 3 ^ 2}"
proof -
  have h: "(1::int) \<le> 3" by simp
  have e: "map (\<lambda>k. advance k 3 (replicate 2 0)) [0 ..< 10]
       = [[0,0], [1,0], [2,0], [0,1], [1,1], [2,1], [0,2], [1,2], [2,2], [0,0]]"
    by code_simp
  from get_next_index_cycle [OF h, of 2] h e show ?thesis
    by blast
qed
section \<open>Lists of reals and indexing\<close>




lemma wrap_index_nat: "i < n \<Longrightarrow> wrap_index n (int i) = Some i"
  by (simp add: wrap_index_def)

lemma those_eq_Some: "those xs = Some ys \<longleftrightarrow> xs = map Some ys"
proof (induction xs arbitrary: ys)
  case Nil
  then show ?case by auto
next
  case (Cons x xs)
  then show ?case
    by (cases x; cases ys) (auto split: option.splits)
qed

lemma those_map_Some:
  assumes "\<forall>x\<in>set xs. \<exists>y. f x = Some y"
  shows "\<exists>ys. those (map f xs) = Some ys \<and> length ys = length xs
           \<and> (\<forall>i<length xs. f (xs ! i) = Some (ys ! i))"
proof -
  have "those (map f xs) = Some (map (\<lambda>x. the (f x)) xs)"
    using assms by (simp add: those_eq_Some) 
  moreover have "\<forall>i<length xs. f (xs ! i) = Some (map (\<lambda>x. the (f x)) xs ! i)"
    using assms by auto
  ultimately show ?thesis by auto
qed

lemma those_nth:
  assumes "those xs = Some ys"
  shows "length ys = length xs \<and> (\<forall>i<length xs. xs ! i = Some (ys ! i))"
  using assms by (auto simp: those_eq_Some)

section \<open>The resize step\<close>



lemma resize_bins_unchanged:
  assumes "resize_bins grid i ws = Some g"
  shows "length g = length grid \<and> (\<forall>k. k < i \<or> i + length ws \<le> k \<longrightarrow> g ! k = grid ! k)"
  using assms
proof (induction ws arbitrary: grid i)
  case Nil
  then show ?case by simp
next
  case (Cons w ws)
  from Cons.prems obtain j where i: "i < length grid"
    and r: "resize_bins (grid[i := grid ! j + w]) (Suc i) ws = Some g"
    by (auto split: option.splits if_splits)
  from Cons.IH [OF r] show ?case
    by auto
qed


lemma those_map2_eq_Some:
  assumes "length xs = length ys"
  shows "those (map2 f xs ys) = Some zs
    \<longleftrightarrow> length zs = length xs \<and> (\<forall>d<length xs. f (xs ! d) (ys ! d) = Some (zs ! d))"
  using assms by (auto simp: those_eq_Some list_eq_iff_nth_eq)

lemma resize_grid_Inr:
  "resize_grid grid old_weights subintegrals alpha = Inr (grid', weights)
  \<longleftrightarrow> length old_weights = length grid \<and> length subintegrals = length grid
      \<and> length weights = length grid \<and> length grid' = length grid
      \<and> (\<forall>d<length grid.
            resize_weights alpha (old_weights ! d) (subintegrals ! d) = Some (weights ! d)
            \<and> resize_bins (grid ! d) 0 (weights ! d) = Some (grid' ! d))"
proof (cases "length old_weights = length grid \<and> length subintegrals = length grid")
  case False
  then show ?thesis by (auto simp: resize_grid_def)
next
  case True
  then have l: "length old_weights = length subintegrals" by simp
  show ?thesis
  proof (cases "those (map2 (resize_weights alpha) old_weights subintegrals)")
    case None
    then have "\<not> (length weights = length old_weights \<and> (\<forall>d<length old_weights.
        resize_weights alpha (old_weights ! d) (subintegrals ! d) = Some (weights ! d)))"
      using those_map2_eq_Some [OF l, of "resize_weights alpha" weights] by simp
    with None True show ?thesis
      by (auto simp: resize_grid_def)
  next
    case (Some cw)
    from Some have cw: "length cw = length grid"
      "\<forall>d<length grid. resize_weights alpha (old_weights ! d) (subintegrals ! d) = Some (cw ! d)"
      using those_map2_eq_Some [OF l, of "resize_weights alpha" cw] True by simp_all
    have lg: "length grid = length cw" using cw by simp
    have "resize_grid grid old_weights subintegrals alpha = Inr (grid', weights)
      \<longleftrightarrow> weights = cw \<and> those (map2 (\<lambda>col ws. resize_bins col 0 ws) grid cw) = Some grid'"
      using True Some by (auto simp: resize_grid_def split: option.splits)
    also have "\<dots> \<longleftrightarrow> weights = cw \<and> length grid' = length grid
        \<and> (\<forall>d<length grid. resize_bins (grid ! d) 0 (cw ! d) = Some (grid' ! d))"
      using those_map2_eq_Some [OF lg, of "\<lambda>col ws. resize_bins col 0 ws" grid'] by simp
    also have "\<dots> \<longleftrightarrow> length weights = length grid \<and> length grid' = length grid
      \<and> (\<forall>d<length grid.
            resize_weights alpha (old_weights ! d) (subintegrals ! d) = Some (weights ! d)
            \<and> resize_bins (grid ! d) 0 (weights ! d) = Some (grid' ! d))"
    proof -
      have "weights = cw \<longleftrightarrow> length weights = length grid \<and> (\<forall>d<length grid. weights ! d = cw ! d)"
        using cw(1) by (metis nth_equalityI)
      then show ?thesis
        using cw by auto
    qed
    finally show ?thesis
      using True by simp
  qed
qed





section \<open>The length of the uniform start\<close>

lemma uniform_length_2: "uniform_length 2 = 2"
  by code_simp

lemma uniform_length_49: "uniform_length 49 = 50"
  by code_simp

section \<open>Evaluating the model\<close>

lemmas vegas_eval_defs =
  prepare_grid_def integrate_def vegas_init_def float_eps_def uniform_vals_def uniform_length_2
  uniform_ws_def Let_def get_selected_subregion_def get_selected_region_def selected_interval_def
  wrap_index_def volume_of_def sample_point_def rand_point_def add_importance_def
  resize_grid_def resize_weights_def column_mean_def np_mean_def np_var_def

section \<open>Parameter checks\<close>

text \<open>
  Claim C7. Parameter validation comes before any change of state: \<open>prepare_grid\<close> called with
  \<open>alpha\<close> not above the machine epsilon, and \<open>integrate\<close> called with \<open>times \<le> 0\<close> or
  \<open>number_of_calls \<le> 0\<close>, fail with the parameter exception and leave the instance exactly
  as it was: \<open>bins\<close>, \<open>bin_num\<close>, \<open>dimensions\<close> and the random generator (so no draw was made).
\<close>

theorem invalid_parameters_rejected:
  "(alpha \<le> float_eps \<longrightarrow>
      prepare_grid s bins_per_dimension epochs calls_per_epoch alpha
        = (Inl (Exception ''To low alpha''), s))
   \<and> (times0 \<le> 0 \<or> number_of_calls \<le> 0 \<longrightarrow>
      integrate s times0 number_of_calls = (Inl (Exception ''Incorrect params''), s))"
  by (simp add: prepare_grid_def integrate_def)

theorem invalid_parameters_rejected_witness:
  "prepare_grid
      (vegas_init ([0], [2]) (\<lambda>x. 1) (\<lambda>k j. 1 / 2)\<lparr>bin_num := Some 1, bins := Some [[1, 0]]\<rparr>)
      2 1 10 (1 / 2 ^ 52)
     = (Inl (Exception ''To low alpha''),
        vegas_init ([0], [2]) (\<lambda>x. 1) (\<lambda>k j. 1 / 2)\<lparr>bin_num := Some 1, bins := Some [[1, 0]]\<rparr>)
   \<and> integrate
      (vegas_init ([0], [2]) (\<lambda>x. 1) (\<lambda>k j. 1 / 2)\<lparr>bin_num := Some 1, bins := Some [[1, 0]]\<rparr>)
      0 10
     = (Inl (Exception ''Incorrect params''),
        vegas_init ([0], [2]) (\<lambda>x. 1) (\<lambda>k j. 1 / 2)\<lparr>bin_num := Some 1, bins := Some [[1, 0]]\<rparr>)
   \<and> integrate
      (vegas_init ([0], [2]) (\<lambda>x. 1) (\<lambda>k j. 1 / 2)\<lparr>bin_num := Some 1, bins := Some [[1, 0]]\<rparr>)
      3 (- 1)
     = (Inl (Exception ''Incorrect params''),
        vegas_init ([0], [2]) (\<lambda>x. 1) (\<lambda>k j. 1 / 2)\<lparr>bin_num := Some 1, bins := Some [[1, 0]]\<rparr>)"
proof -
  let ?s = "vegas_init ([0], [2]) (\<lambda>x. 1) (\<lambda>k j. 1 / 2)\<lparr>bin_num := Some 1, bins := Some [[1, 0]]\<rparr>"
  have a: "(1 / 2 ^ 52 :: real) \<le> float_eps"
    by (simp add: float_eps_def)
  have b: "(0::int) \<le> 0 \<or> (10::int) \<le> 0" "(3::int) \<le> 0 \<or> (- 1::int) \<le> 0"
    by simp_all
  from invalid_parameters_rejected [of "1 / 2 ^ 52" ?s 2 1 10 0 10] a b(1)
  have "prepare_grid ?s 2 1 10 (1 / 2 ^ 52) = (Inl (Exception ''To low alpha''), ?s)"
    "integrate ?s 0 10 = (Inl (Exception ''Incorrect params''), ?s)"
    by blast+
  moreover from invalid_parameters_rejected [of 1 ?s 2 1 10 3 "- 1"] b(2)
  have "integrate ?s 3 (- 1) = (Inl (Exception ''Incorrect params''), ?s)"
    by blast
  ultimately show ?thesis
    by blast
qed

lemma vegas_init_untrained: "bins (vegas_init r f g) = None \<and> bin_num (vegas_init r f g) = None"
  by (simp add: vegas_init_def)

lemma prepare_grid_failure_keeps:
  "prepare_grid s b e c alpha = (Inl err, s') \<Longrightarrow> s' = s"
  by (auto simp: prepare_grid_def Let_def split: if_splits sum.splits prod.splits)

lemma integrate_keeps_model:
  "integrate s t n = (r, s') \<Longrightarrow> bins s' = bins s \<and> bin_num s' = bin_num s \<and> dimensions s' = dimensions s"
  by (auto simp: integrate_def Let_def split: if_splits option.splits prod.splits)

text \<open>
  Claim C8. On an instance that holds no trained grid (\<open>bins\<close> was never set), \<open>integrate\<close> with
  valid parameters fails with AttributeError, produces no result and leaves the instance as
  it was; with invalid parameters it fails with the parameter exception, since that check
  comes first.
\<close>

theorem integrate_untrained:
  assumes "bins s = None"
  shows "(0 < times0 \<and> 0 < number_of_calls \<longrightarrow>
            integrate s times0 number_of_calls = (Inl (AttributeError ''bins''), s))
    \<and> (times0 \<le> 0 \<or> number_of_calls \<le> 0 \<longrightarrow>
            integrate s times0 number_of_calls = (Inl (Exception ''Incorrect params''), s))"
  using assms by (auto simp: integrate_def)

theorem integrate_untrained_witness:
  "bins (vegas_init ([0], [2]) (\<lambda>x. 1) (\<lambda>k j. 1 / 2)) = None
   \<and> integrate (vegas_init ([0], [2]) (\<lambda>x. 1) (\<lambda>k j. 1 / 2)) 20 10000
       = (Inl (AttributeError ''bins''), vegas_init ([0], [2]) (\<lambda>x. 1) (\<lambda>k j. 1 / 2))
   \<and> integrate (vegas_init ([0], [2]) (\<lambda>x. 1) (\<lambda>k j. 1 / 2)) 0 10000
       = (Inl (Exception ''Incorrect params''), vegas_init ([0], [2]) (\<lambda>x. 1) (\<lambda>k j. 1 / 2))"
proof -
  let ?s = "vegas_init ([0], [2]) (\<lambda>x. 1) (\<lambda>k j. 1 / 2)"
  have h: "bins ?s = None"
    by (simp add: vegas_init_def)
  from integrate_untrained [OF h, of 20 10000] integrate_untrained [OF h, of 0 10000] h
  show ?thesis
    by simp
qed

section \<open>Counting the draws\<close>

lemma importance_loop_draws:
  "fst (importance_loop s dims zone volume calls_per_bin n (k, m)) = k + n"
  by (induction n arbitrary: k m) (simp_all add: Let_def)

lemma little_integral_loop_draws:
  "fst (little_integral_loop s dims zone volume calls_per_bin n (k, m)) = k + n"
  by (induction n arbitrary: k m) (simp_all add: Let_def)

lemma training_bins_loop_draws:
  assumes "training_bins_loop s dims bins0 bin_num0 calls_per_bin n (sel, distrib, k)
    = Some (sel', distrib', k')"
  shows "k' = k + n * nat calls_per_bin"
  using assms
proof (induction n arbitrary: sel distrib k)
  case 0
  then show ?case by simp
next
  case (Suc n)
  from Suc.prems obtain zone distrib1 k1 m1 where
    i: "importance_loop s dims zone (volume_of zone) calls_per_bin (nat calls_per_bin) (k, 0) = (k1, m1)"
    and r: "training_bins_loop s dims bins0 bin_num0 calls_per_bin n
         (get_next_index sel bin_num0, distrib1, k1) = Some (sel', distrib', k')"
    by (auto simp: Let_def split: option.splits prod.splits)
  from importance_loop_draws [of s dims zone "volume_of zone" calls_per_bin "nat calls_per_bin" k 0] i
  have "k1 = k + nat calls_per_bin"
    by simp
  with Suc.IH [OF r] show ?case
    by simp
qed

lemma epochs_loop_draws:
  assumes "epochs_loop s dims bin_num0 total_bins calls_per_bin alpha n (bins0, weights, k)
    = Inr (bins', weights', k')"
  shows "k' = k + n * (nat total_bins * nat calls_per_bin)"
  using assms
proof (induction n arbitrary: bins0 weights k)
  case 0
  then show ?case by simp
next
  case (Suc n)
  from Suc.prems obtain sel distrib k1 bins1 weights1 where
    t: "training_bins_loop s dims bins0 bin_num0 calls_per_bin (nat total_bins)
          (replicate dims 0, replicate dims (replicate (nat bin_num0) 0), k) = Some (sel, distrib, k1)"
    and r: "epochs_loop s dims bin_num0 total_bins calls_per_bin alpha n (bins1, weights1, k1)
          = Inr (bins', weights', k')"
    by (auto simp: Let_def split: option.splits sum.splits prod.splits)
  from training_bins_loop_draws [OF t] Suc.IH [OF r] show ?case
    by simp
qed

lemma integral_bins_loop_draws:
  assumes "integral_bins_loop s dims bins0 bin_num0 calls_per_bin n (sel, integral, k)
    = Some (sel', integral', k')"
  shows "k' = k + n * nat calls_per_bin"
  using assms
proof (induction n arbitrary: sel integral k)
  case 0
  then show ?case by simp
next
  case (Suc n)
  from Suc.prems obtain zone integral1 k1 m1 where
    i: "little_integral_loop s dims zone (volume_of zone) calls_per_bin (nat calls_per_bin) (k, 0)
          = (k1, m1)"
    and r: "integral_bins_loop s dims bins0 bin_num0 calls_per_bin n
         (get_next_index sel bin_num0, integral1, k1) = Some (sel', integral', k')"
    by (auto simp: Let_def split: option.splits prod.splits)
  from little_integral_loop_draws [of s dims zone "volume_of zone" calls_per_bin "nat calls_per_bin" k 0] i
  have "k1 = k + nat calls_per_bin"
    by simp
  with Suc.IH [OF r] show ?case
    by simp
qed

lemma evaluations_loop_draws:
  assumes "evaluations_loop s dims bins0 bin_num0 total_bins calls_per_bin n (evs, k) = Some (evs', k')"
  shows "k' = k + n * (nat total_bins * nat calls_per_bin)"
  using assms
proof (induction n arbitrary: evs k)
  case 0
  then show ?case by simp
next
  case (Suc n)
  from Suc.prems obtain sel integral k1 where
    t: "integral_bins_loop s dims bins0 bin_num0 calls_per_bin (nat total_bins) (replicate dims 0, 0, k)
          = Some (sel, integral, k1)"
    and r: "evaluations_loop s dims bins0 bin_num0 total_bins calls_per_bin n (evs @ [integral], k1)
          = Some (evs', k')"
    by (auto split: option.splits prod.splits)
  from integral_bins_loop_draws [OF t] Suc.IH [OF r] show ?case
    by simp
qed

lemma prepare_grid_draws:
  assumes "prepare_grid s bins_per_dimension epochs calls_per_epoch alpha = (Inr (), s')"
  shows "1 \<le> bins_per_dimension \<and> bin_num s' = Some bins_per_dimension
    \<and> dimensions s' = length (fst (region s))
    \<and> draws s' = draws s + nat epochs * (nat (bins_per_dimension ^ length (fst (region s)))
        * nat (min (calls_per_epoch div bins_per_dimension ^ length (fst (region s))) 2))"
  using assms
  by (auto simp: prepare_grid_def Let_def split: if_splits sum.splits prod.splits
      dest!: epochs_loop_draws)

lemma integrate_draws:
  assumes "integrate s times0 number_of_calls = (Inr res, s')" "bin_num s = Some bin_num0"
  shows "draws s' = draws s + nat times0 * (nat (bin_num0 ^ dimensions s)
        * nat (max (number_of_calls div bin_num0 ^ dimensions s) 2))"
  using assms
  by (auto simp: integrate_def Let_def split: if_splits option.splits prod.splits
      dest!: evaluations_loop_draws)

text \<open>
  Claim C5. Training draws \<open>calls_per_bin = min(calls_per_epoch // total_bins, 2)\<close> points in
  each of the \<open>total_bins = bin_num ^ dims\<close> bins of every epoch, which is never more than 2
  (and is a count, not negative, when \<open>calls_per_epoch \<ge> 0\<close>); integration draws
  \<open>calls_per_bin = max(number_of_calls // total_bins, 2)\<close> points in each bin of every
  evaluation, which is never fewer than 2. Draws are counted by the random generator's call
  count; a \<open>range\<close> over a negative count makes no draw.
\<close>

theorem calls_per_bin_asymmetry:
  "(prepare_grid s bins_per_dimension epochs calls_per_epoch alpha = (Inr (), s') \<longrightarrow>
      draws s' = draws s + nat epochs * (nat (bins_per_dimension ^ length (fst (region s)))
          * nat (min (calls_per_epoch div bins_per_dimension ^ length (fst (region s))) 2))
      \<and> min (calls_per_epoch div bins_per_dimension ^ length (fst (region s))) 2 \<le> 2
      \<and> (0 \<le> calls_per_epoch \<longrightarrow>
            0 \<le> min (calls_per_epoch div bins_per_dimension ^ length (fst (region s))) 2))
   \<and> (integrate t times0 number_of_calls = (Inr res, t') \<and> bin_num t = Some bin_num0 \<longrightarrow>
      draws t' = draws t + nat times0 * (nat (bin_num0 ^ dimensions t)
          * nat (max (number_of_calls div bin_num0 ^ dimensions t) 2))
      \<and> 2 \<le> max (number_of_calls div bin_num0 ^ dimensions t) 2)
   \<and> (training_bins_loop s dims bins0 limit calls_per_bin (Suc 0) (sel, distrib, k)
          = Some (sel', distrib', k') \<longrightarrow> k' = k + nat calls_per_bin)
   \<and> (integral_bins_loop s dims bins0 limit calls_per_bin (Suc 0) (sel, integral, k)
          = Some (sel', integral', k') \<longrightarrow> k' = k + nat calls_per_bin)"
proof (intro conjI impI)
  assume p: "prepare_grid s bins_per_dimension epochs calls_per_epoch alpha = (Inr (), s')"
  from prepare_grid_draws [OF p]
  show "draws s' = draws s + nat epochs * (nat (bins_per_dimension ^ length (fst (region s)))
          * nat (min (calls_per_epoch div bins_per_dimension ^ length (fst (region s))) 2))"
    by simp
  show "min (calls_per_epoch div bins_per_dimension ^ length (fst (region s))) 2 \<le> 2"
    by simp
  assume c: "0 \<le> calls_per_epoch"
  from prepare_grid_draws [OF p] have "0 < bins_per_dimension ^ length (fst (region s))"
    by simp
  with c have "0 \<le> calls_per_epoch div bins_per_dimension ^ length (fst (region s))"
    by (simp add: pos_imp_zdiv_nonneg_iff)
  then show "0 \<le> min (calls_per_epoch div bins_per_dimension ^ length (fst (region s))) 2"
    by simp
next
  assume i: "integrate t times0 number_of_calls = (Inr res, t') \<and> bin_num t = Some bin_num0"
  then show "draws t' = draws t + nat times0 * (nat (bin_num0 ^ dimensions t)
          * nat (max (number_of_calls div bin_num0 ^ dimensions t) 2))"
    using integrate_draws by blast
  show "2 \<le> max (number_of_calls div bin_num0 ^ dimensions t) 2"
    by simp
next
  assume "training_bins_loop s dims bins0 limit calls_per_bin (Suc 0) (sel, distrib, k)
          = Some (sel', distrib', k')"
  from training_bins_loop_draws [OF this] show "k' = k + nat calls_per_bin"
    by simp
next
  assume "integral_bins_loop s dims bins0 limit calls_per_bin (Suc 0) (sel, integral, k)
          = Some (sel', integral', k')"
  from integral_bins_loop_draws [OF this] show "k' = k + nat calls_per_bin"
    by simp
qed

theorem calls_per_bin_asymmetry_witness:
  "draws (snd (prepare_grid (vegas_init ([0], [2]) (\<lambda>x. hd x) (\<lambda>k j. 1 / 2)) 2 1 1000 1))
      = 0 + nat 1 * (nat (2 ^ 1) * nat (min (1000 div 2 ^ 1) 2))
   \<and> draws (snd (integrate (vegas_init ([0], [2]) (\<lambda>x. hd x) (\<lambda>k j. 1 / 2)
         \<lparr>bin_num := Some 2, dimensions := 1, bins := Some [[5/8, 1, 0]], draws := 4\<rparr>) 3 1))
      = 4 + nat 3 * (nat (2 ^ 1) * nat (max (1 div 2 ^ 1) 2))"
proof -
  let ?s = "vegas_init ([0], [2]) (\<lambda>x. hd x) (\<lambda>k j. 1 / 2)"
  let ?t = "?s\<lparr>bin_num := Some 2, dimensions := 1, bins := Some [[5/8, 1, 0]], draws := 4\<rparr>"
  let ?t' = "?s\<lparr>bin_num := Some 2, dimensions := 1, bins := Some [[5/8, 1, 0]], draws := 16\<rparr>"
  have p: "prepare_grid ?s 2 1 1000 1 = (Inr (), ?t)"
    by (simp add: vegas_eval_defs eval_nat_numeral upt_rec)
  have i: "integrate ?t 3 1 = (Inr (2, 0), ?t') \<and> bin_num ?t = Some 2"
    by (simp add: vegas_eval_defs eval_nat_numeral upt_rec)
  have r: "length (fst (region ?s)) = 1" "draws ?s = 0" "dimensions ?t = 1" "draws ?t = 4"
    by (simp_all add: vegas_init_def)
  from calls_per_bin_asymmetry [of ?s 2 1 1000 1 ?t ?t 3 1 "(2, 0)" ?t' 2] p i
  have "draws ?t = draws ?s + nat 1 * (nat (2 ^ length (fst (region ?s)))
          * nat (min (1000 div 2 ^ length (fst (region ?s))) 2))"
    and "draws ?t' = draws ?t + nat 3 * (nat (2 ^ dimensions ?t)
          * nat (max (1 div 2 ^ dimensions ?t) 2))"
    by blast+
  then show ?thesis
    unfolding p i [THEN conjunct1] snd_conv r by simp
qed

section \<open>The uniform start of training\<close>

lemma uniform_vals_eq:
  assumes "uniform_length n = nat n"
  shows "uniform_vals n = map (\<lambda>i. (real i + 1) / real_of_int n) [0 ..< nat n] @ [0]"
  by (simp add: uniform_vals_def assms add_divide_distrib)

lemma uniform_ws_eq: "uniform_ws n = replicate (nat n) (1 / real_of_int n)"
  by (simp add: uniform_ws_def)

lemma length_uniform_vals: "length (uniform_vals n) = uniform_length n + 1"
  by (simp add: uniform_vals_def)

text \<open>The way \<open>prepare_grid\<close> goes once its checks have passed.\<close>

lemma prepare_grid_unfold:
  assumes "float_eps < alpha" "1 \<le> n" "uniform_length n = nat n"
  shows "prepare_grid s n epochs calls_per_epoch alpha =
    (case epochs_loop s (length (fst (region s))) n (n ^ length (fst (region s)))
            (min (calls_per_epoch div n ^ length (fst (region s))) 2) alpha (nat epochs)
            (replicate (length (fst (region s))) (uniform_vals n),
             replicate (length (fst (region s))) (uniform_ws n), draws s) of
       Inl e \<Rightarrow> (Inl e, s)
     | Inr (bins', weights', k) \<Rightarrow>
         (Inr (), s\<lparr>bin_num := Some n, dimensions := length (fst (region s)), bins := Some bins',
                   draws := k\<rparr>))"
  using assms by (simp add: prepare_grid_def Let_def length_uniform_vals nat_add_distrib)

text \<open>
  When \<open>np.arange\<close> returns \<open>bin_num\<close> entries, the grid and the weights that training starts
  from are uniform, and training with no epoch commits exactly this grid.
\<close>

lemma uniform_start:
  assumes "1 \<le> bin_num0" "uniform_length bin_num0 = nat bin_num0"
  shows "(\<forall>i < nat bin_num0. uniform_vals bin_num0 ! i = (real i + 1) / real_of_int bin_num0
            \<and> uniform_ws bin_num0 ! i = 1 / real_of_int bin_num0)
    \<and> length (uniform_vals bin_num0) = nat bin_num0 + 1
    \<and> uniform_vals bin_num0 ! nat bin_num0 = 0
    \<and> length (uniform_ws bin_num0) = nat bin_num0
    \<and> (float_eps < alpha \<and> epochs \<le> 0 \<longrightarrow>
          prepare_grid s bin_num0 epochs calls_per_epoch alpha
            = (Inr (), s\<lparr>bin_num := Some bin_num0, dimensions := length (fst (region s)),
                 bins := Some (replicate (length (fst (region s)))
                    (map (\<lambda>i. (real i + 1) / real_of_int bin_num0) [0 ..< nat bin_num0] @ [0]))\<rparr>))"
proof (intro conjI allI impI)
  fix i
  assume i: "i < nat bin_num0"
  then show "uniform_vals bin_num0 ! i = (real i + 1) / real_of_int bin_num0"
    by (simp add: uniform_vals_eq [OF assms(2)] nth_append)
  from i show "uniform_ws bin_num0 ! i = 1 / real_of_int bin_num0"
    by (simp add: uniform_ws_eq)
next
  show "length (uniform_vals bin_num0) = nat bin_num0 + 1"
    by (simp add: uniform_vals_eq [OF assms(2)])
  show "uniform_vals bin_num0 ! nat bin_num0 = 0"
    by (simp add: uniform_vals_eq [OF assms(2)] nth_append)
  show "length (uniform_ws bin_num0) = nat bin_num0"
    by (simp add: uniform_ws_eq)
next
  assume a: "float_eps < alpha \<and> epochs \<le> 0"
  then have e: "nat epochs = 0" by simp
  from a have "float_eps < alpha" by simp
  from prepare_grid_unfold [OF this assms, of s epochs calls_per_epoch]
  show "prepare_grid s bin_num0 epochs calls_per_epoch alpha
            = (Inr (), s\<lparr>bin_num := Some bin_num0, dimensions := length (fst (region s)),
                 bins := Some (replicate (length (fst (region s)))
                    (map (\<lambda>i. (real i + 1) / real_of_int bin_num0) [0 ..< nat bin_num0] @ [0]))\<rparr>)"
    by (simp add: e uniform_vals_eq [OF assms(2)])
qed

lemma prepare_grid_length_error:
  assumes "float_eps < alpha" "1 \<le> n" "uniform_length n \<noteq> nat n" "0 < length (fst (region s))"
  shows "prepare_grid s n epochs calls_per_epoch alpha = (Inl ValueError, s)"
  using assms by (simp add: prepare_grid_def Let_def length_uniform_vals nat_add_distrib)

lemma prepare_grid_length_ok:
  assumes "prepare_grid s n epochs calls_per_epoch alpha = (Inr (), s')"
  shows "float_eps < alpha \<and> 1 \<le> n \<and> (uniform_length n = nat n \<or> length (fst (region s)) = 0)"
  using assms
  by (auto simp: prepare_grid_def Let_def length_uniform_vals nat_add_distrib split: if_splits)

text \<open>
  Claim C9. The claim is that for every \<open>bin_num \<ge> 1\<close> training starts from the uniform grid
  and, with no epoch, commits it. For \<open>bin_num = 49\<close> the program does not: in double precision
  \<open>(1 + 1/49) - 1/49\<close> is 1 and \<open>1 / (1/49)\<close> is a little more than 49, so \<open>np.arange\<close> returns 50
  values, \<open>vals\<close> has 51 entries, and the assignment to the 50 rows of \<open>bins[:, dim]\<close> raises
  ValueError; nothing is committed.
\<close>

theorem uniform_start_fails_for_49:
  "uniform_length 49 = 50 \<and> length (uniform_vals 49) = 51
   \<and> prepare_grid (vegas_init ([0, 0], [2, 2]) (\<lambda>x. 1) (\<lambda>k j. 1 / 2)) 49 0 2500 1
       = (Inl ValueError, vegas_init ([0, 0], [2, 2]) (\<lambda>x. 1) (\<lambda>k j. 1 / 2))"
proof -
  let ?s = "vegas_init ([0, 0], [2, 2]) (\<lambda>x. 1) (\<lambda>k j. 1 / 2)"
  have a: "float_eps < 1" by (simp add: float_eps_def)
  have n: "(1::int) \<le> 49" "uniform_length 49 \<noteq> nat 49"
    by (simp_all add: uniform_length_49)
  have d: "0 < length (fst (region ?s))"
    by (simp add: vegas_init_def)
  from prepare_grid_length_error [OF a n d, of 0 2500] show ?thesis
    by (simp add: uniform_length_49 length_uniform_vals)
qed

section \<open>The region mapper\<close>

lemma valid_indices_nth:
  "valid_indices limit dims xs \<longleftrightarrow> length xs = dims \<and> (\<forall>d<dims. 0 \<le> xs ! d \<and> xs ! d < limit)"
  by (auto simp: valid_indices_def list_all_length)

lemma selected_interval_valid:
  assumes "length col = Suc n" "0 \<le> i" "i < int n"
  shows "selected_interval lo hi col i
    = Some (lo + (if i = 0 then col ! n else col ! (nat i - 1)) * (hi - lo),
            lo + col ! nat i * (hi - lo))"
proof -
  have u: "wrap_index (length col) i = Some (nat i)"
    using assms by (simp add: wrap_index_def)
  have l: "wrap_index (length col) (if i = 0 then int (length col) - 1 else i - 1)
      = Some (if i = 0 then n else nat i - 1)"
    using assms by (auto simp: wrap_index_def nat_diff_distrib)
  show ?thesis
    unfolding selected_interval_def Let_def l u by (simp split: if_splits)
qed

lemma those_map_upt:
  assumes "\<forall>d<n. f d = Some (g d)"
  shows "those (map f [0 ..< n]) = Some (map g [0 ..< n])"
  using assms by (simp add: those_eq_Some)

lemma get_selected_region_valid:
  assumes "length (fst total_region) = dims" "length (snd total_region) = dims"
    and "length bins0 = dims" "\<forall>d<dims. length (bins0 ! d) = Suc n"
    and "valid_indices (int n) dims indices"
  shows "get_selected_region total_region bins0 indices
    = Some (map (\<lambda>d. fst total_region ! d
                   + (if indices ! d = 0 then bins0 ! d ! n else bins0 ! d ! (nat (indices ! d) - 1))
                     * (snd total_region ! d - fst total_region ! d)) [0 ..< dims],
            map (\<lambda>d. fst total_region ! d
                   + bins0 ! d ! nat (indices ! d)
                     * (snd total_region ! d - fst total_region ! d)) [0 ..< dims])"
proof -
  from assms(5) have len: "length indices = dims"
    and v: "\<forall>d<dims. 0 \<le> indices ! d \<and> indices ! d < int n"
    by (simp_all add: valid_indices_nth)
  let ?lo = "\<lambda>d. fst total_region ! d
                   + (if indices ! d = 0 then bins0 ! d ! n else bins0 ! d ! (nat (indices ! d) - 1))
                     * (snd total_region ! d - fst total_region ! d)"
  let ?hi = "\<lambda>d. fst total_region ! d
                   + bins0 ! d ! nat (indices ! d)
                     * (snd total_region ! d - fst total_region ! d)"
  have "\<forall>d<dims. selected_interval (fst total_region ! d) (snd total_region ! d)
                        (bins0 ! d) (indices ! d) = Some (?lo d, ?hi d)"
  proof (intro allI impI)
    fix d
    assume d: "d < dims"
    with assms(4) v have "length (bins0 ! d) = Suc n" "0 \<le> indices ! d" "indices ! d < int n"
      by simp_all
    then show "selected_interval (fst total_region ! d) (snd total_region ! d)
                        (bins0 ! d) (indices ! d) = Some (?lo d, ?hi d)"
      by (rule selected_interval_valid)
  qed
  from those_map_upt [OF this]
  have "those (map (\<lambda>dim. selected_interval (fst total_region ! dim) (snd total_region ! dim)
                        (bins0 ! dim) (indices ! dim)) [0 ..< length indices])
      = Some (map (\<lambda>d. (?lo d, ?hi d)) [0 ..< dims])"
    by (simp add: len)
  then show ?thesis
    using assms(1-3) len by (simp add: get_selected_region_def comp_def)
qed

lemma edges_mono:
  fixes col :: "real list"
  assumes "\<forall>i. Suc i < n \<longrightarrow> col ! i \<le> col ! Suc i" "i \<le> j" "j < n"
  shows "col ! i \<le> col ! j"
  using assms(2,3)
proof (induction j)
  case 0
  then show ?case by simp
next
  case (Suc j)
  show ?case
  proof (cases "i = Suc j")
    case True
    then show ?thesis by simp
  next
    case False
    with Suc.prems have "i \<le> j" "j < n" by simp_all
    from Suc.IH [OF this] assms(1) Suc.prems(2) show ?thesis
      by (meson order_trans)
  qed
qed

text \<open>
  The intervals of one dimension: \<open>L i\<close> and \<open>U i\<close> are the borders the code computes for
  bin \<open>i\<close>.
\<close>

lemma column_tiles:
  fixes col :: "real list" and lo hi :: real
  assumes len: "length col = Suc n" and n: "0 < n"
    and sentinel: "col ! n = 0" and final: "col ! (n - 1) = 1"
    and range: "\<forall>i<n. 0 \<le> col ! i \<and> col ! i \<le> 1"
    and mono: "\<forall>i. Suc i < n \<longrightarrow> col ! i \<le> col ! Suc i"
    and region: "lo \<le> hi"
  defines "L \<equiv> \<lambda>i. lo + (if i = 0 then col ! n else col ! (i - 1)) * (hi - lo)"
    and "U \<equiv> \<lambda>i. lo + col ! i * (hi - lo)"
  shows "\<forall>i<n. lo \<le> L i \<and> L i \<le> U i \<and> U i \<le> hi"
    and "L 0 = lo" and "U (n - 1) = hi"
    and "\<forall>i. Suc i < n \<longrightarrow> L (Suc i) = U i"
    and "\<forall>i j. i < j \<and> j < n \<longrightarrow> U i \<le> L j"
    and "\<forall>x. lo \<le> x \<and> x \<le> hi \<longrightarrow> (\<exists>i<n. L i \<le> x \<and> x \<le> U i)"
proof -
  have r: "0 \<le> hi - lo"
    using region by simp
  have edge: "0 \<le> (if i = 0 then col ! n else col ! (i - 1))
      \<and> (if i = 0 then col ! n else col ! (i - 1)) \<le> col ! i" if "i < n" for i
  proof (cases i)
    case 0
    then show ?thesis using sentinel range that by simp
  next
    case (Suc k)
    with that mono range show ?thesis by simp
  qed
  show b: "\<forall>i<n. lo \<le> L i \<and> L i \<le> U i \<and> U i \<le> hi"
  proof (intro allI impI)
    fix i
    assume i: "i < n"
    from edge [OF i] r have "0 \<le> (if i = 0 then col ! n else col ! (i - 1)) * (hi - lo)"
      "(if i = 0 then col ! n else col ! (i - 1)) * (hi - lo) \<le> col ! i * (hi - lo)"
      by (simp_all add: mult_right_mono)
    moreover from range i r have "col ! i * (hi - lo) \<le> 1 * (hi - lo)"
      by (intro mult_right_mono) simp_all
    ultimately show "lo \<le> L i \<and> L i \<le> U i \<and> U i \<le> hi"
      by (simp add: L_def U_def)
  qed
  show l0: "L 0 = lo"
    by (simp add: L_def sentinel)
  show un: "U (n - 1) = hi"
    using final by (simp add: U_def)
  show adj: "\<forall>i. Suc i < n \<longrightarrow> L (Suc i) = U i"
    by (simp add: L_def U_def)
  show "\<forall>i j. i < j \<and> j < n \<longrightarrow> U i \<le> L j"
  proof (intro allI impI)
    fix i j
    assume ij: "i < j \<and> j < n"
    then have "i \<le> j - 1" "j - 1 < n" "j \<noteq> 0" by auto
    from edges_mono [OF mono this(1,2)] r have "col ! i * (hi - lo) \<le> col ! (j - 1) * (hi - lo)"
      by (simp add: mult_right_mono)
    with \<open>j \<noteq> 0\<close> show "U i \<le> L j"
      by (simp add: L_def U_def)
  qed
  show "\<forall>x. lo \<le> x \<and> x \<le> hi \<longrightarrow> (\<exists>i<n. L i \<le> x \<and> x \<le> U i)"
  proof (intro allI impI)
    fix x
    assume x: "lo \<le> x \<and> x \<le> hi"
    define i where "i = (LEAST i. x \<le> U i)"
    have ex: "x \<le> U (n - 1)"
      using x un by simp
    then have xi: "x \<le> U i"
      unfolding i_def by (rule LeastI)
    have "i \<le> n - 1"
      unfolding i_def using ex by (rule Least_le)
    with n have i: "i < n" by simp
    have "L i \<le> x"
    proof (cases i)
      case 0
      then show ?thesis using l0 x by simp
    next
      case (Suc k)
      then have "k < i" by simp
      then have "\<not> x \<le> U k"
        unfolding i_def by (rule not_less_Least)
      moreover from adj Suc i have "L i = U k" by simp
      ultimately show ?thesis by simp
    qed
    with xi i show "\<exists>i<n. L i \<le> x \<and> x \<le> U i"
      by blast
  qed
qed

lemma get_selected_subregion_valid:
  assumes "length (fst (region s)) = dims" "length (snd (region s)) = dims"
    and "length bins0 = dims" "\<forall>d<dims. length (bins0 ! d) = Suc n"
    and "valid_indices (int n) dims indices"
  shows "\<exists>box. get_selected_subregion s bins0 indices = Some box
    \<and> length (fst box) = dims \<and> length (snd box) = dims
    \<and> (\<forall>d<dims.
          fst box ! d = fst (region s) ! d
             + (if nat (indices ! d) = 0 then bins0 ! d ! n else bins0 ! d ! (nat (indices ! d) - 1))
               * (snd (region s) ! d - fst (region s) ! d)
          \<and> snd box ! d = fst (region s) ! d
             + bins0 ! d ! nat (indices ! d) * (snd (region s) ! d - fst (region s) ! d))"
proof -
  from assms(5) have v: "\<forall>d<dims. 0 \<le> indices ! d"
    by (simp add: valid_indices_nth)
  have z: "nat (indices ! d) = 0 \<longleftrightarrow> indices ! d = 0" if "d < dims" for d
    using v that by auto
  have "get_selected_subregion s bins0 indices
    = Some (map (\<lambda>d. fst (region s) ! d
                   + (if indices ! d = 0 then bins0 ! d ! n else bins0 ! d ! (nat (indices ! d) - 1))
                     * (snd (region s) ! d - fst (region s) ! d)) [0 ..< dims],
            map (\<lambda>d. fst (region s) ! d
                   + bins0 ! d ! nat (indices ! d)
                     * (snd (region s) ! d - fst (region s) ! d)) [0 ..< dims])"
    unfolding get_selected_subregion_def by (rule get_selected_region_valid [OF assms])
  then show ?thesis
    using z by simp
qed

text \<open>
  Claim C4. Take a region with \<open>lower \<le> upper\<close> in every dimension and a grid of \<open>n = bin_num\<close>
  edges per dimension that are non-decreasing, lie in \<open>[0, 1]\<close> and end with 1, with the extra
  last row equal to 0. Then for every valid index vector \<open>get_selected_subregion\<close> returns a
  box that lies within the region. In every dimension the intervals of the bins tile the
  region's extent: bin 0 starts at the region's lower bound, bin \<open>n - 1\<close> ends at its upper
  bound, bin \<open>i + 1\<close> starts where bin \<open>i\<close> ends, a bin of smaller index ends before a bin of
  larger index starts (no overlap), the interval depends on that dimension's index only, and
  every point of the extent lies in the interval of some bin (no gap).
\<close>

theorem subregion_tiles_region:
  assumes n: "0 < n"
    and shape: "length (fst (region s)) = dims" "length (snd (region s)) = dims" "length bins0 = dims"
    and reg: "\<forall>d<dims. fst (region s) ! d \<le> snd (region s) ! d"
    and grid: "\<forall>d<dims. length (bins0 ! d) = Suc n
        \<and> bins0 ! d ! n = 0 \<and> bins0 ! d ! (n - 1) = 1
        \<and> (\<forall>i<n. 0 \<le> bins0 ! d ! i \<and> bins0 ! d ! i \<le> 1)
        \<and> (\<forall>i. Suc i < n \<longrightarrow> bins0 ! d ! i \<le> bins0 ! d ! Suc i)"
  shows "(\<forall>indices. valid_indices (int n) dims indices \<longrightarrow>
      (\<exists>lower upper. get_selected_subregion s bins0 indices = Some (lower, upper)
         \<and> length lower = dims \<and> length upper = dims
         \<and> (\<forall>d<dims. fst (region s) ! d \<le> lower ! d \<and> lower ! d \<le> upper ! d
               \<and> upper ! d \<le> snd (region s) ! d)))
    \<and> (\<forall>indices indices' box box'.
          valid_indices (int n) dims indices \<and> valid_indices (int n) dims indices'
          \<and> get_selected_subregion s bins0 indices = Some box
          \<and> get_selected_subregion s bins0 indices' = Some box' \<longrightarrow>
          (\<forall>d<dims.
             (indices ! d = 0 \<longrightarrow> fst box ! d = fst (region s) ! d)
           \<and> (indices ! d = int n - 1 \<longrightarrow> snd box ! d = snd (region s) ! d)
           \<and> (indices' ! d = indices ! d + 1 \<longrightarrow> fst box' ! d = snd box ! d)
           \<and> (indices ! d < indices' ! d \<longrightarrow> snd box ! d \<le> fst box' ! d)
           \<and> (indices ! d = indices' ! d \<longrightarrow>
                 fst box ! d = fst box' ! d \<and> snd box ! d = snd box' ! d)))
    \<and> (\<forall>d<dims. \<forall>x. fst (region s) ! d \<le> x \<and> x \<le> snd (region s) ! d \<longrightarrow>
          (\<exists>i. 0 \<le> i \<and> i < int n \<and>
             (\<forall>indices box. valid_indices (int n) dims indices \<and> indices ! d = i
                \<and> get_selected_subregion s bins0 indices = Some box \<longrightarrow>
                fst box ! d \<le> x \<and> x \<le> snd box ! d)))"
proof -
  define L where "L = (\<lambda>d i. fst (region s) ! d
             + (if i = 0 then bins0 ! d ! n else bins0 ! d ! (i - 1))
               * (snd (region s) ! d - fst (region s) ! d))"
  define U where "U = (\<lambda>d i. fst (region s) ! d
             + bins0 ! d ! i * (snd (region s) ! d - fst (region s) ! d))"
  have lens: "\<forall>d<dims. length (bins0 ! d) = Suc n"
    using grid by simp
  have box: "length (fst box) = dims \<and> length (snd box) = dims
      \<and> (\<forall>d<dims. fst box ! d = L d (nat (indices ! d)) \<and> snd box ! d = U d (nat (indices ! d)))"
    if "valid_indices (int n) dims indices" "get_selected_subregion s bins0 indices = Some box"
    for indices box
    using get_selected_subregion_valid [OF shape lens that(1)] that(2)
    by (auto simp: L_def U_def)
  have idx: "nat (indices ! d) < n" "0 \<le> indices ! d"
    if "valid_indices (int n) dims indices" "d < dims" for indices d
    using that by (auto simp: valid_indices_nth)
  have col: "(\<forall>i<n. fst (region s) ! d \<le> L d i \<and> L d i \<le> U d i \<and> U d i \<le> snd (region s) ! d)
      \<and> L d 0 = fst (region s) ! d \<and> U d (n - 1) = snd (region s) ! d
      \<and> (\<forall>i. Suc i < n \<longrightarrow> L d (Suc i) = U d i)
      \<and> (\<forall>i j. i < j \<and> j < n \<longrightarrow> U d i \<le> L d j)
      \<and> (\<forall>x. fst (region s) ! d \<le> x \<and> x \<le> snd (region s) ! d \<longrightarrow>
            (\<exists>i<n. L d i \<le> x \<and> x \<le> U d i))" if d: "d < dims" for d
  proof -
    from grid d have g: "length (bins0 ! d) = Suc n" "bins0 ! d ! n = 0" "bins0 ! d ! (n - 1) = 1"
      "\<forall>i<n. 0 \<le> bins0 ! d ! i \<and> bins0 ! d ! i \<le> 1"
      "\<forall>i. Suc i < n \<longrightarrow> bins0 ! d ! i \<le> bins0 ! d ! Suc i"
      by simp_all
    from reg d have r: "fst (region s) ! d \<le> snd (region s) ! d"
      by simp
    from column_tiles [OF g(1) n g(2-5) r] show ?thesis
      unfolding L_def U_def by blast
  qed
  have A: "\<forall>indices. valid_indices (int n) dims indices \<longrightarrow>
      (\<exists>lower upper. get_selected_subregion s bins0 indices = Some (lower, upper)
         \<and> length lower = dims \<and> length upper = dims
         \<and> (\<forall>d<dims. fst (region s) ! d \<le> lower ! d \<and> lower ! d \<le> upper ! d
               \<and> upper ! d \<le> snd (region s) ! d))"
  proof (intro allI impI)
    fix indices
    assume v: "valid_indices (int n) dims indices"
    from get_selected_subregion_valid [OF shape lens v]
    obtain b where b: "get_selected_subregion s bins0 indices = Some b"
      by blast
    have "fst (region s) ! d \<le> fst b ! d \<and> fst b ! d \<le> snd b ! d
        \<and> snd b ! d \<le> snd (region s) ! d" if d: "d < dims" for d
      using box [OF v b] col [OF d] idx [OF v d] d by simp
    with box [OF v b] b show "\<exists>lower upper. get_selected_subregion s bins0 indices = Some (lower, upper)
         \<and> length lower = dims \<and> length upper = dims
         \<and> (\<forall>d<dims. fst (region s) ! d \<le> lower ! d \<and> lower ! d \<le> upper ! d
               \<and> upper ! d \<le> snd (region s) ! d)"
      by (cases b) auto
  qed
  have B: "\<forall>indices indices' box box'.
          valid_indices (int n) dims indices \<and> valid_indices (int n) dims indices'
          \<and> get_selected_subregion s bins0 indices = Some box
          \<and> get_selected_subregion s bins0 indices' = Some box' \<longrightarrow>
          (\<forall>d<dims.
             (indices ! d = 0 \<longrightarrow> fst box ! d = fst (region s) ! d)
           \<and> (indices ! d = int n - 1 \<longrightarrow> snd box ! d = snd (region s) ! d)
           \<and> (indices' ! d = indices ! d + 1 \<longrightarrow> fst box' ! d = snd box ! d)
           \<and> (indices ! d < indices' ! d \<longrightarrow> snd box ! d \<le> fst box' ! d)
           \<and> (indices ! d = indices' ! d \<longrightarrow>
                 fst box ! d = fst box' ! d \<and> snd box ! d = snd box' ! d))"
  proof (intro allI impI)
    fix indices indices' b b' d
    assume h: "valid_indices (int n) dims indices \<and> valid_indices (int n) dims indices'
          \<and> get_selected_subregion s bins0 indices = Some b
          \<and> get_selected_subregion s bins0 indices' = Some b'"
      and d: "d < dims"
    then have v: "valid_indices (int n) dims indices" and v': "valid_indices (int n) dims indices'"
      and g: "get_selected_subregion s bins0 indices = Some b"
      and g': "get_selected_subregion s bins0 indices' = Some b'"
      by simp_all
    let ?i = "nat (indices ! d)" and ?j = "nat (indices' ! d)"
    from box [OF v g] box [OF v' g'] d
    have e: "fst b ! d = L d ?i" "snd b ! d = U d ?i" "fst b' ! d = L d ?j" "snd b' ! d = U d ?j"
      by simp_all
    note i = idx [OF v d] and j = idx [OF v' d] and c = col [OF d]
    have 1: "indices ! d = 0 \<longrightarrow> fst b ! d = fst (region s) ! d"
      using e c by simp
    have 2: "indices ! d = int n - 1 \<longrightarrow> snd b ! d = snd (region s) ! d"
    proof
      assume "indices ! d = int n - 1"
      then have "?i = n - 1" by simp
      then show "snd b ! d = snd (region s) ! d"
        using e c by simp
    qed
    have 3: "indices' ! d = indices ! d + 1 \<longrightarrow> fst b' ! d = snd b ! d"
    proof
      assume "indices' ! d = indices ! d + 1"
      with i j have "?j = Suc ?i" "Suc ?i < n" by simp_all
      then show "fst b' ! d = snd b ! d"
        using e c by simp
    qed
    have 4: "indices ! d < indices' ! d \<longrightarrow> snd b ! d \<le> fst b' ! d"
    proof
      assume "indices ! d < indices' ! d"
      with i j have "?i < ?j \<and> ?j < n" by simp
      then show "snd b ! d \<le> fst b' ! d"
        using e c by simp
    qed
    have 5: "indices ! d = indices' ! d \<longrightarrow> fst b ! d = fst b' ! d \<and> snd b ! d = snd b' ! d"
      using e by simp
    from 1 2 3 4 5
    show "(indices ! d = 0 \<longrightarrow> fst b ! d = fst (region s) ! d)
           \<and> (indices ! d = int n - 1 \<longrightarrow> snd b ! d = snd (region s) ! d)
           \<and> (indices' ! d = indices ! d + 1 \<longrightarrow> fst b' ! d = snd b ! d)
           \<and> (indices ! d < indices' ! d \<longrightarrow> snd b ! d \<le> fst b' ! d)
           \<and> (indices ! d = indices' ! d \<longrightarrow>
                 fst b ! d = fst b' ! d \<and> snd b ! d = snd b' ! d)"
      by blast
  qed
  have C: "\<forall>d<dims. \<forall>x. fst (region s) ! d \<le> x \<and> x \<le> snd (region s) ! d \<longrightarrow>
          (\<exists>i. 0 \<le> i \<and> i < int n \<and>
             (\<forall>indices box. valid_indices (int n) dims indices \<and> indices ! d = i
                \<and> get_selected_subregion s bins0 indices = Some box \<longrightarrow>
                fst box ! d \<le> x \<and> x \<le> snd box ! d))"
  proof (intro allI impI)
    fix d x
    assume d: "d < dims" and x: "fst (region s) ! d \<le> x \<and> x \<le> snd (region s) ! d"
    with col [OF d] obtain i where i: "i < n" "L d i \<le> x" "x \<le> U d i"
      by blast
    have "fst b ! d \<le> x \<and> x \<le> snd b ! d"
      if "valid_indices (int n) dims indices \<and> indices ! d = int i
                \<and> get_selected_subregion s bins0 indices = Some b" for indices b
    proof -
      from that have v: "valid_indices (int n) dims indices"
        and g: "get_selected_subregion s bins0 indices = Some b" and e: "nat (indices ! d) = i"
        by simp_all
      from box [OF v g] d e i show ?thesis by simp
    qed
    with i(1) show "\<exists>i. 0 \<le> i \<and> i < int n \<and>
             (\<forall>indices box. valid_indices (int n) dims indices \<and> indices ! d = i
                \<and> get_selected_subregion s bins0 indices = Some box \<longrightarrow>
                fst box ! d \<le> x \<and> x \<le> snd box ! d)"
      by (intro exI [of _ "int i"]) simp
  qed
  from A B C show ?thesis
    by blast
qed

theorem subregion_tiles_region_witness:
  "(\<exists>lower upper.
      get_selected_subregion (vegas_init ([0, 1], [2, 5]) (\<lambda>x. 1) (\<lambda>k j. 1 / 2))
        [[1/4, 1, 0], [1/2, 1, 0]] [1, 0] = Some (lower, upper)
      \<and> 0 \<le> lower ! 0 \<and> lower ! 0 \<le> upper ! 0 \<and> upper ! 0 \<le> 2
      \<and> 1 \<le> lower ! 1 \<and> lower ! 1 \<le> upper ! 1 \<and> upper ! 1 \<le> 5)
   \<and> map (get_selected_subregion (vegas_init ([0, 1], [2, 5]) (\<lambda>x. 1) (\<lambda>k j. 1 / 2))
        [[1/4, 1, 0], [1/2, 1, 0]]) [[0, 0], [1, 0], [0, 1], [1, 1]]
     = [Some ([0, 1], [1/2, 3]), Some ([1/2, 1], [2, 3]),
        Some ([0, 3], [1/2, 5]), Some ([1/2, 3], [2, 5])]"
proof -
  let ?s = "vegas_init ([0, 1], [2, 5]) (\<lambda>x. 1) (\<lambda>k j. 1 / 2)"
  let ?bins = "[[1/4, 1, 0], [1/2, 1, 0 :: real]]"
  have n: "0 < (2::nat)" by simp
  have shape: "length (fst (region ?s)) = 2" "length (snd (region ?s)) = 2" "length ?bins = 2"
    by (simp_all add: vegas_init_def)
  have reg: "\<forall>d<2. fst (region ?s) ! d \<le> snd (region ?s) ! d"
    by (simp add: vegas_init_def less_Suc_eq numeral_2_eq_2)
  have grid: "\<forall>d<2. length (?bins ! d) = Suc 2
        \<and> ?bins ! d ! 2 = 0 \<and> ?bins ! d ! (2 - 1) = 1
        \<and> (\<forall>i<2. 0 \<le> ?bins ! d ! i \<and> ?bins ! d ! i \<le> 1)
        \<and> (\<forall>i. Suc i < 2 \<longrightarrow> ?bins ! d ! i \<le> ?bins ! d ! Suc i)"
    by (simp add: less_Suc_eq numeral_2_eq_2)
  have v: "valid_indices (int 2) 2 [1, 0]"
    by (simp add: valid_indices_def)
  from subregion_tiles_region [OF n shape reg grid] v
  obtain lower upper where g: "get_selected_subregion ?s ?bins [1, 0] = Some (lower, upper)"
    and b: "\<forall>d<2. fst (region ?s) ! d \<le> lower ! d \<and> lower ! d \<le> upper ! d
               \<and> upper ! d \<le> snd (region ?s) ! d"
    by blast
  from b have "fst (region ?s) ! 0 \<le> lower ! 0 \<and> lower ! 0 \<le> upper ! 0
               \<and> upper ! 0 \<le> snd (region ?s) ! 0"
    "fst (region ?s) ! 1 \<le> lower ! 1 \<and> lower ! 1 \<le> upper ! 1
               \<and> upper ! 1 \<le> snd (region ?s) ! 1"
    by simp_all
  then have "0 \<le> lower ! 0 \<and> lower ! 0 \<le> upper ! 0 \<and> upper ! 0 \<le> 2
      \<and> 1 \<le> lower ! 1 \<and> lower ! 1 \<le> upper ! 1 \<and> upper ! 1 \<le> 5"
    by (simp add: vegas_init_def)
  moreover have "map (get_selected_subregion ?s ?bins) [[0, 0], [1, 0], [0, 1], [1, 1]]
     = [Some ([0, 1], [1/2, 3]), Some ([1/2, 1], [2, 3]),
        Some ([0, 3], [1/2, 5]), Some ([1/2, 3], [2, 5])]"
    by (simp add: vegas_init_def get_selected_subregion_def get_selected_region_def
        selected_interval_def wrap_index_def Let_def upt_rec)
  ultimately show ?thesis
    using g by blast
qed

section \<open>The invariant of training\<close>
















section \<open>The extra row of the grid\<close>

lemma resize_weights_length:
  assumes "resize_weights alpha old_weights subintegrals = Some ws"
  shows "length ws = length old_weights"
  using assms by (auto simp: resize_weights_def Let_def split: if_splits)

lemma resize_grid_sentinel:
  assumes "resize_grid grid old_weights subintegrals alpha = Inr (grid', weights')"
  shows "length grid' = length grid \<and> length weights' = length grid
    \<and> (\<forall>d<length grid. length (grid' ! d) = length (grid ! d)
          \<and> length (weights' ! d) = length (old_weights ! d)
          \<and> (\<forall>i. length (old_weights ! d) \<le> i \<longrightarrow> grid' ! d ! i = grid ! d ! i))"
proof -
  from assms have l: "length grid' = length grid" "length weights' = length grid"
    and c: "\<forall>d<length grid.
            resize_weights alpha (old_weights ! d) (subintegrals ! d) = Some (weights' ! d)
            \<and> resize_bins (grid ! d) 0 (weights' ! d) = Some (grid' ! d)"
    by (simp_all add: resize_grid_Inr)
  have "length (grid' ! d) = length (grid ! d)
          \<and> length (weights' ! d) = length (old_weights ! d)
          \<and> (\<forall>i. length (old_weights ! d) \<le> i \<longrightarrow> grid' ! d ! i = grid ! d ! i)"
    if "d < length grid" for d
  proof -
    from c that have w: "resize_weights alpha (old_weights ! d) (subintegrals ! d) = Some (weights' ! d)"
      and b: "resize_bins (grid ! d) 0 (weights' ! d) = Some (grid' ! d)"
      by simp_all
    from resize_weights_length [OF w] resize_bins_unchanged [OF b] show ?thesis
      by simp
  qed
  with l show ?thesis
    by blast
qed

lemma epochs_loop_sentinel:
  "epochs_loop s dims bin_num0 total_bins calls_per_bin alpha m (bins0, weights, k)
      = Inr (bins', weights', k') \<Longrightarrow>
   \<forall>d<length bins0. length (weights ! d) = n \<Longrightarrow>
   length bins' = length bins0
   \<and> (\<forall>d<length bins0. length (bins' ! d) = length (bins0 ! d) \<and> bins' ! d ! n = bins0 ! d ! n)"
proof (induction m arbitrary: bins0 weights k)
  case 0
  then show ?case by simp
next
  case (Suc m)
  from Suc.prems(1) obtain distrib bins1 weights1 k1 where
    r: "resize_grid bins0 weights distrib alpha = Inr (bins1, weights1)"
    and e: "epochs_loop s dims bin_num0 total_bins calls_per_bin alpha m (bins1, weights1, k1)
      = Inr (bins', weights', k')"
    by (auto simp: Let_def split: option.splits sum.splits prod.splits)
  from resize_grid_sentinel [OF r] Suc.prems(2)
  have l: "length bins1 = length bins0"
    and w: "\<forall>d<length bins1. length (weights1 ! d) = n"
    and b: "\<forall>d<length bins0. length (bins1 ! d) = length (bins0 ! d) \<and> bins1 ! d ! n = bins0 ! d ! n"
    by simp_all
  from Suc.IH [OF e w] l b show ?case
    by simp
qed

lemma prepare_grid_sentinel:
  assumes "prepare_grid s bins_per_dimension epochs calls_per_epoch alpha = (Inr (), s')"
  shows "\<exists>b. bins s' = Some b \<and> length b = length (fst (region s))
    \<and> (\<forall>d<length (fst (region s)). length (b ! d) = nat bins_per_dimension + 1
          \<and> b ! d ! nat bins_per_dimension = 0)"
proof -
  let ?dims = "length (fst (region s))"
  from prepare_grid_length_ok [OF assms] have a: "float_eps < alpha" and n: "1 \<le> bins_per_dimension"
    and l: "uniform_length bins_per_dimension = nat bins_per_dimension \<or> ?dims = 0"
    by simp_all
  from assms a n obtain b weights' k' where
    e: "epochs_loop s ?dims bins_per_dimension (bins_per_dimension ^ ?dims)
          (min (calls_per_epoch div bins_per_dimension ^ ?dims) 2) alpha (nat epochs)
          (replicate ?dims (uniform_vals bins_per_dimension),
           replicate ?dims (uniform_ws bins_per_dimension), draws s) = Inr (b, weights', k')"
    and s': "s' = s\<lparr>bin_num := Some bins_per_dimension, dimensions := ?dims, bins := Some b,
                   draws := k'\<rparr>"
    by (auto simp: prepare_grid_def Let_def split: if_splits sum.splits prod.splits)
  have "\<forall>d<length (replicate ?dims (uniform_vals bins_per_dimension)).
      length (replicate ?dims (uniform_ws bins_per_dimension) ! d) = nat bins_per_dimension"
    by (simp add: uniform_ws_eq)
  from epochs_loop_sentinel [OF e this]
  have lb: "length b = ?dims"
    and c: "\<forall>d<?dims. length (b ! d) = length (uniform_vals bins_per_dimension)
      \<and> b ! d ! nat bins_per_dimension = uniform_vals bins_per_dimension ! nat bins_per_dimension"
    by simp_all
  from l show ?thesis
  proof
    assume "uniform_length bins_per_dimension = nat bins_per_dimension"
    with lb c s' show ?thesis
      by (simp add: uniform_vals_def nth_append)
  next
    assume "?dims = 0"
    with lb s' show ?thesis
      by simp
  qed
qed

section \<open>The trained grid\<close>



section \<open>The extra row after training\<close>

text \<open>
  Claim C10. The extra last row of the grid, which gives bin 0 its lower edge through the
  index \<open>-1\<close>, is 0 when training starts; \<open>resize_grid\<close> leaves every row from \<open>bin_num\<close> on as
  it was (it assigns rows \<open>0, \<dots>, bin_num - 1\<close> only); so whenever \<open>prepare_grid\<close> completes,
  whatever the number of epochs, that row is 0 in every dimension of the committed grid, and
  the lower border computed for bin 0 is the region's lower bound, as with an implicit edge 0.
\<close>

theorem sentinel_row_stays_zero:
  "(resize_grid grid old_weights subintegrals alpha = Inr (grid', weights') \<longrightarrow>
      (\<forall>d<length grid. length (grid' ! d) = length (grid ! d)
         \<and> (\<forall>i. length (old_weights ! d) \<le> i \<longrightarrow> grid' ! d ! i = grid ! d ! i)))
   \<and> length (uniform_vals bin_num0) = uniform_length bin_num0 + 1
   \<and> uniform_vals bin_num0 ! uniform_length bin_num0 = 0
   \<and> (prepare_grid s bins_per_dimension epochs calls_per_epoch alpha0 = (Inr (), s') \<longrightarrow>
        (\<exists>b. bins s' = Some b \<and> length b = length (fst (region s))
           \<and> (\<forall>d<length (fst (region s)).
                 length (b ! d) = nat bins_per_dimension + 1
                 \<and> b ! d ! nat bins_per_dimension = 0
                 \<and> (\<forall>lo hi. selected_interval lo hi (b ! d) 0
                       = Some (lo, lo + b ! d ! 0 * (hi - lo))))))"
proof (intro conjI impI)
  assume "resize_grid grid old_weights subintegrals alpha = Inr (grid', weights')"
  from resize_grid_sentinel [OF this]
  show "\<forall>d<length grid. length (grid' ! d) = length (grid ! d)
         \<and> (\<forall>i. length (old_weights ! d) \<le> i \<longrightarrow> grid' ! d ! i = grid ! d ! i)"
    by blast
next
  show "length (uniform_vals bin_num0) = uniform_length bin_num0 + 1"
    by (simp add: uniform_vals_def)
  show "uniform_vals bin_num0 ! uniform_length bin_num0 = 0"
    by (simp add: uniform_vals_def nth_append)
next
  assume p: "prepare_grid s bins_per_dimension epochs calls_per_epoch alpha0 = (Inr (), s')"
  from prepare_grid_draws [OF p] have n: "0 < nat bins_per_dimension"
    by simp
  from prepare_grid_sentinel [OF p] obtain b where b: "bins s' = Some b"
    "length b = length (fst (region s))"
    and c: "\<forall>d<length (fst (region s)). length (b ! d) = nat bins_per_dimension + 1
          \<and> b ! d ! nat bins_per_dimension = 0"
    by blast
  have "selected_interval lo hi (b ! d) 0 = Some (lo, lo + b ! d ! 0 * (hi - lo))"
    if "d < length (fst (region s))" for d lo hi
  proof -
    from c that have "length (b ! d) = Suc (nat bins_per_dimension)"
      and z: "b ! d ! nat bins_per_dimension = 0"
      by simp_all
    from selected_interval_valid [OF this(1), of 0 lo hi] n z show ?thesis
      by simp
  qed
  with b c show "\<exists>b. bins s' = Some b \<and> length b = length (fst (region s))
           \<and> (\<forall>d<length (fst (region s)).
                 length (b ! d) = nat bins_per_dimension + 1
                 \<and> b ! d ! nat bins_per_dimension = 0
                 \<and> (\<forall>lo hi. selected_interval lo hi (b ! d) 0
                       = Some (lo, lo + b ! d ! 0 * (hi - lo))))"
    by blast
qed

theorem sentinel_row_stays_zero_witness:
  "resize_grid [[1/2, 1, 0]] [[1/2, 1/2]] [[1, 3]] 1 = Inr ([[5/8, 1, 0]], [[5/8, 3/8]])
   \<and> [[5/8, 1, 0 :: real]] ! 0 ! 2 = [[1/2, 1, 0]] ! 0 ! 2
   \<and> uniform_vals 2 ! uniform_length 2 = 0
   \<and> (\<exists>b. bins (snd (prepare_grid (vegas_init ([0], [2]) (\<lambda>x. hd x) (\<lambda>k j. 1 / 2)) 2 2 1000 1))
          = Some b \<and> b ! 0 ! nat 2 = 0)"
proof -
  let ?s = "vegas_init ([0], [2]) (\<lambda>x. hd x) (\<lambda>k j. 1 / 2)"
  let ?s' = "?s\<lparr>bin_num := Some 2, dimensions := 1, bins := Some [[355/526, 1, 0]], draws := 8\<rparr>"
  have r: "resize_grid [[1/2, 1, 0]] [[1/2, 1/2]] [[1, 3]] 1 = Inr ([[5/8, 1, 0]], [[5/8, 3/8]])"
    by (simp add: vegas_eval_defs)
  have p: "prepare_grid ?s 2 2 1000 1 = (Inr (), ?s')"
    by (simp add: vegas_eval_defs eval_nat_numeral upt_rec)
  have d: "(0::nat) < length [[1/2, 1, 0 :: real]]" "(0::nat) < length (fst (region ?s))"
    "length ([[1/2, 1/2 :: real]] ! 0) \<le> 2"
    by (simp_all add: vegas_init_def)
  note t = sentinel_row_stays_zero [of "[[1/2, 1, 0]]" "[[1/2, 1/2]]" "[[1, 3]]" 1
      "[[5/8, 1, 0]]" "[[5/8, 3/8]]" 2 ?s 2 2 1000 1 ?s']
  from t r d(1,3) have "[[5/8, 1, 0 :: real]] ! 0 ! 2 = [[1/2, 1, 0]] ! 0 ! 2"
    by blast
  moreover from t have "uniform_vals 2 ! uniform_length 2 = 0"
    by blast
  moreover from t p d(2) have "\<exists>b. bins ?s' = Some b \<and> b ! 0 ! nat 2 = 0"
    by blast
  ultimately show ?thesis
    using r p by simp
qed

section \<open>The result of integration\<close>

lemma sum_list_upt_shift:
  fixes f :: "nat \<Rightarrow> real"
  shows "sum_list (map f [0 ..< Suc n]) = f 0 + sum_list (map (\<lambda>i. f (Suc i)) [0 ..< n])"
  by (simp only: map_upt_Suc sum_list.Cons)

lemma little_integral_loop_sum:
  "little_integral_loop s dims zone volume calls_per_bin n (k, acc)
    = (k + n, acc + sum_list (map (\<lambda>c. volume * func s (sample_point zone (rand_point s dims (k + c)))
                                    / real_of_int calls_per_bin) [0 ..< n]))"
proof (induction n arbitrary: k acc)
  case 0
  then show ?case by simp
next
  case (Suc n)
  show ?case
    unfolding sum_list_upt_shift little_integral_loop.simps Let_def Suc.IH
    by (simp add: add.assoc)
qed

lemma advance_Suc_left: "advance (Suc b) limit xs = advance b limit (get_next_index xs limit)"
  unfolding advance_def by (simp only: funpow_Suc_right o_apply)

lemma integral_bins_loop_sum:
  assumes "integral_bins_loop s dims bins0 limit calls_per_bin m (sel, integral, k)
    = Some (sel', integral', k')"
  shows "sel' = advance m limit sel \<and> k' = k + m * nat calls_per_bin
    \<and> integral' = integral
        + sum_list (map (\<lambda>b. loop_bin_estimate s dims bins0 calls_per_bin (advance b limit sel)
                                (k + b * nat calls_per_bin)) [0 ..< m])"
  using assms
proof (induction m arbitrary: sel integral k)
  case 0
  then show ?case by (simp add: advance_def)
next
  case (Suc m)
  from Suc.prems obtain box where b: "get_selected_subregion s bins0 sel = Some box"
    by (auto split: option.splits)
  let ?e = "loop_bin_estimate s dims bins0 calls_per_bin sel k"
  have l: "little_integral_loop s dims box (volume_of box) calls_per_bin (nat calls_per_bin) (k, 0)
      = (k + nat calls_per_bin, ?e)"
    by (simp add: little_integral_loop_sum loop_bin_estimate_def b)
  from Suc.prems have r: "integral_bins_loop s dims bins0 limit calls_per_bin m
      (get_next_index sel limit, integral + ?e, k + nat calls_per_bin) = Some (sel', integral', k')"
    by (simp add: b l Let_def)
  from Suc.IH [OF r] have s': "sel' = advance m limit (get_next_index sel limit)"
    and k': "k' = k + nat calls_per_bin + m * nat calls_per_bin"
    and i: "integral' = integral + ?e
        + sum_list (map (\<lambda>b. loop_bin_estimate s dims bins0 calls_per_bin
                                (advance b limit (get_next_index sel limit))
                                (k + nat calls_per_bin + b * nat calls_per_bin)) [0 ..< m])"
    by simp_all
  have "sum_list (map (\<lambda>b. loop_bin_estimate s dims bins0 calls_per_bin (advance b limit sel)
                                (k + b * nat calls_per_bin)) [0 ..< Suc m])
      = ?e + sum_list (map (\<lambda>b. loop_bin_estimate s dims bins0 calls_per_bin
                                (advance b limit (get_next_index sel limit))
                                (k + nat calls_per_bin + b * nat calls_per_bin)) [0 ..< m])"
    unfolding sum_list_upt_shift advance_Suc_left
    by (simp add: advance_def add.assoc)
  with s' k' i show ?case
    by (simp add: advance_Suc_left)
qed

lemma evaluations_loop_list:
  assumes "evaluations_loop s dims bins0 limit total_bins calls_per_bin m (evs, k) = Some (evs', k')"
  shows "k' = k + m * (nat total_bins * nat calls_per_bin)
    \<and> evs' = evs @ map (\<lambda>j. loop_evaluation s dims bins0 limit (nat total_bins) calls_per_bin
                              (k + j * (nat total_bins * nat calls_per_bin))) [0 ..< m]"
  using assms
proof (induction m arbitrary: evs k)
  case 0
  then show ?case by simp
next
  case (Suc m)
  from Suc.prems obtain sel integral k1 where
    t: "integral_bins_loop s dims bins0 limit calls_per_bin (nat total_bins) (replicate dims 0, 0, k)
          = Some (sel, integral, k1)"
    and r: "evaluations_loop s dims bins0 limit total_bins calls_per_bin m (evs @ [integral], k1)
          = Some (evs', k')"
    by (auto split: option.splits prod.splits)
  from integral_bins_loop_sum [OF t]
  have k1: "k1 = k + nat total_bins * nat calls_per_bin"
    and i: "integral = loop_evaluation s dims bins0 limit (nat total_bins) calls_per_bin k"
    by (simp_all add: loop_evaluation_def)
  from Suc.IH [OF r] have k': "k' = k1 + m * (nat total_bins * nat calls_per_bin)"
    and e: "evs' = (evs @ [integral])
        @ map (\<lambda>j. loop_evaluation s dims bins0 limit (nat total_bins) calls_per_bin
                      (k1 + j * (nat total_bins * nat calls_per_bin))) [0 ..< m]"
    by simp_all
  have "map (\<lambda>j. loop_evaluation s dims bins0 limit (nat total_bins) calls_per_bin
                      (k + j * (nat total_bins * nat calls_per_bin))) [0 ..< Suc m]
      = integral # map (\<lambda>j. loop_evaluation s dims bins0 limit (nat total_bins) calls_per_bin
                      (k1 + j * (nat total_bins * nat calls_per_bin))) [0 ..< m]"
    unfolding map_upt_Suc by (simp add: i k1 add.assoc)
  with e k' k1 show ?case
    by simp
qed

lemma np_var_eq: "np_var xs = sum_list (map (\<lambda>x. (x - np_mean xs) ^ 2) xs) / real (length xs)"
  by (simp add: np_var_def np_mean_def)

lemma integral_bins_loop_returns:
  assumes n: "0 < n"
    and shape: "length (fst (region s)) = dims" "length (snd (region s)) = dims" "length bins0 = dims"
      "\<forall>d<dims. length (bins0 ! d) = Suc n"
  shows "valid_indices (int n) dims sel \<Longrightarrow>
    \<exists>r. integral_bins_loop s dims bins0 (int n) calls_per_bin m (sel, integral, k) = Some r"
proof (induction m arbitrary: sel integral k)
  case 0
  then show ?case by simp
next
  case (Suc m)
  from get_selected_subregion_valid [OF shape Suc.prems]
  obtain box where b: "get_selected_subregion s bins0 sel = Some box"
    by blast
  have v: "valid_indices (int n) dims (get_next_index sel (int n))"
    using n Suc.prems by (intro get_next_index_valid) simp_all
  obtain k1 l1 where l: "little_integral_loop s dims box (volume_of box) calls_per_bin
      (nat calls_per_bin) (k, 0) = (k1, l1)"
    by (cases "little_integral_loop s dims box (volume_of box) calls_per_bin (nat calls_per_bin) (k, 0)")
  from Suc.IH [OF v, of "integral + l1" k1] b l show ?case
    by (simp add: Let_def)
qed

lemma evaluations_loop_returns:
  assumes n: "0 < n"
    and shape: "length (fst (region s)) = dims" "length (snd (region s)) = dims" "length bins0 = dims"
      "\<forall>d<dims. length (bins0 ! d) = Suc n"
  shows "\<exists>r. evaluations_loop s dims bins0 (int n) total_bins calls_per_bin m (evs, k) = Some r"
proof (induction m arbitrary: evs k)
  case 0
  then show ?case by simp
next
  case (Suc m)
  have z: "valid_indices (int n) dims (replicate dims 0)"
    using n by (intro valid_indices_zero) simp
  from integral_bins_loop_returns [OF n shape z, of calls_per_bin "nat total_bins" 0 k]
  obtain sel integral k1 where
    t: "integral_bins_loop s dims bins0 (int n) calls_per_bin (nat total_bins) (replicate dims 0, 0, k)
          = Some (sel, integral, k1)"
    by (metis prod_cases3)
  from Suc.IH [of "evs @ [integral]" k1] t show ?case
    by simp
qed



section \<open>The specification's enumeration and boxes\<close>

lemma spec_indices_Suc:
  "spec_indices n (Suc dims) b = b mod n # spec_indices n dims (b div n)"
proof -
  have "(b div n ^ Suc d) mod n = ((b div n) div n ^ d) mod n" for d
    by (simp add: div_mult2_eq)
  then show ?thesis
    unfolding spec_indices_def map_upt_Suc by simp
qed

lemma spec_indices_length [simp]: "length (spec_indices n dims b) = dims"
  by (simp add: spec_indices_def)

lemma spec_indices_valid:
  assumes "0 < n"
  shows "valid_indices (int n) dims (map int (spec_indices n dims b))"
  using assms by (simp add: valid_indices_nth spec_indices_def)

lemma spec_indices_value:
  "index_value (int n) (map int (spec_indices n dims b)) = int (b mod n ^ dims)"
proof (induction dims arbitrary: b)
  case 0
  then show ?case by (simp add: spec_indices_def)
next
  case (Suc dims)
  have "int (b mod n) + int n * int ((b div n) mod n ^ dims) = int (b mod (n * n ^ dims))"
    by (simp add: mod_mult2_eq)
  then show ?case
    by (simp add: spec_indices_Suc Suc.IH)
qed

lemma advance_spec_indices:
  assumes "0 < n" "b < n ^ dims"
  shows "advance b (int n) (replicate dims 0) = map int (spec_indices n dims b)"
proof -
  have l: "1 \<le> int n"
    using assms(1) by simp
  have b: "b < nat (int n) ^ dims"
    using assms(2) by simp
  have "index_value (int n) (advance b (int n) (replicate dims 0))
      = index_value (int n) (map int (spec_indices n dims b))"
    using advance_zero_value [OF l b] assms(2) by (simp add: spec_indices_value)
  from index_value_inj [OF l advance_valid [OF l valid_indices_zero [OF l]]
      spec_indices_valid [OF assms(1)] this]
  show ?thesis .
qed

lemma spec_indices_covers:
  assumes "0 < n" "length idx = dims" "\<forall>d<dims. idx ! d < n"
  shows "\<exists>!b. b < n ^ dims \<and> spec_indices n dims b = idx"
proof -
  have l: "1 \<le> int n"
    using assms(1) by simp
  have v: "valid_indices (int n) dims (map int idx)"
    using assms(2,3) by (simp add: valid_indices_nth)
  from advance_zero_reaches [OF l v] obtain b where b: "b < n ^ dims"
    and a: "advance b (int n) (replicate dims 0) = map int idx"
    by auto
  from a advance_spec_indices [OF assms(1) b]
  have "map int (spec_indices n dims b) = map int idx"
    by simp
  then have e: "spec_indices n dims b = idx"
    by (simp add: inj_map_eq_map [OF inj_of_nat])
  have "b' = b" if "b' < n ^ dims" "spec_indices n dims b' = idx" for b'
  proof -
    have "int (b' mod n ^ dims) = int (b mod n ^ dims)"
      using spec_indices_value [of n dims b'] spec_indices_value [of n dims b] that(2) e
      by simp
    with that(1) b show ?thesis
      by simp
  qed
  with b e show ?thesis
    by blast
qed

lemma spec_subregion_code:
  assumes "length (fst (region s)) = dims" "length (snd (region s)) = dims"
    and "length grid = dims" "\<forall>d<dims. length (grid ! d) = Suc n \<and> grid ! d ! n = 0"
    and "length idx = dims" "\<forall>d<dims. idx ! d < n"
  shows "get_selected_subregion s grid (map int idx) = Some (spec_subregion (region s) grid idx)"
proof -
  have lens: "\<forall>d<dims. length (grid ! d) = Suc n"
    using assms(4) by simp
  have v: "valid_indices (int n) dims (map int idx)"
    using assms(5,6) by (simp add: valid_indices_nth)
  from get_selected_subregion_valid [OF assms(1-3) lens v]
  obtain box where b: "get_selected_subregion s grid (map int idx) = Some box"
    and l: "length (fst box) = dims" "length (snd box) = dims"
    and f: "\<forall>d<dims.
          fst box ! d = fst (region s) ! d
             + (if nat (map int idx ! d) = 0 then grid ! d ! n
                else grid ! d ! (nat (map int idx ! d) - 1))
               * (snd (region s) ! d - fst (region s) ! d)
          \<and> snd box ! d = fst (region s) ! d
             + grid ! d ! nat (map int idx ! d) * (snd (region s) ! d - fst (region s) ! d)"
    by blast
  have "fst box = fst (spec_subregion (region s) grid idx)"
  proof (rule nth_equalityI)
    show "length (fst box) = length (fst (spec_subregion (region s) grid idx))"
      by (simp add: l spec_subregion_def assms(5))
  next
    fix d
    assume "d < length (fst box)"
    then have d: "d < dims" by (simp add: l)
    with f assms(4,5) show "fst box ! d = fst (spec_subregion (region s) grid idx) ! d"
      by (simp add: spec_subregion_def)
  qed
  moreover have "snd box = snd (spec_subregion (region s) grid idx)"
  proof (rule nth_equalityI)
    show "length (snd box) = length (snd (spec_subregion (region s) grid idx))"
      by (simp add: l spec_subregion_def assms(5))
  next
    fix d
    assume "d < length (snd box)"
    then have d: "d < dims" by (simp add: l)
    with f assms(5) show "snd box ! d = snd (spec_subregion (region s) grid idx) ! d"
      by (simp add: spec_subregion_def)
  qed
  ultimately have "box = spec_subregion (region s) grid idx"
    by (simp add: prod_eq_iff)
  with b show ?thesis by simp
qed

lemma map2_nth_upt:
  assumes "length xs = n" "length ys = n"
  shows "map2 f xs ys = map (\<lambda>d. f (xs ! d) (ys ! d)) [0 ..< n]"
  using assms by (intro nth_equalityI) simp_all

lemma spec_volume_code:
  assumes "length (fst b) = length (snd b)"
  shows "volume_of b = spec_volume b"
  unfolding volume_of_def spec_volume_def
  using map2_nth_upt [of "snd b" "length (fst b)" "fst b" "(-)"] assms by simp

lemma spec_point_code:
  assumes "length (fst b) = dims" "length (snd b) = dims"
  shows "sample_point b (rand_point s dims k) = spec_point b (rand s k)"
proof -
  have "map2 (-) (snd b) (fst b) = map (\<lambda>d. snd b ! d - fst b ! d) [0 ..< dims]"
    using assms by (intro map2_nth_upt) simp_all
  then have "map2 (*) (rand_point s dims k) (map2 (-) (snd b) (fst b))
      = map (\<lambda>d. rand s k d * (snd b ! d - fst b ! d)) [0 ..< dims]"
    using map2_nth_upt [of "rand_point s dims k" dims "map (\<lambda>d. snd b ! d - fst b ! d) [0 ..< dims]" "(*)"]
    by (simp add: rand_point_def)
  then have "sample_point b (rand_point s dims k)
      = map (\<lambda>d. fst b ! d + rand s k d * (snd b ! d - fst b ! d)) [0 ..< dims]"
    unfolding sample_point_def
    using map2_nth_upt [of "fst b" dims "map (\<lambda>d. rand s k d * (snd b ! d - fst b ! d)) [0 ..< dims]" "(+)"]
      assms(1)
    by simp
  then show ?thesis
    by (simp add: spec_point_def assms(1))
qed


lemma spec_subregion_length:
  "length (fst (spec_subregion r grid idx)) = length idx
   \<and> length (snd (spec_subregion r grid idx)) = length idx"
  by (simp add: spec_subregion_def)

lemma loop_bin_estimate_spec:
  assumes "length (fst (region s)) = dims" "length (snd (region s)) = dims"
    and "length grid = dims" "\<forall>d<dims. length (grid ! d) = Suc n \<and> grid ! d ! n = 0"
    and "length idx = dims" "\<forall>d<dims. idx ! d < n"
    and "0 \<le> calls_per_bin"
  shows "loop_bin_estimate s dims grid calls_per_bin (map int idx) k
    = spec_bin_estimate (func s) (rand s) (spec_subregion (region s) grid idx) (nat calls_per_bin) k"
proof -
  let ?b = "spec_subregion (region s) grid idx"
  have l: "length (fst ?b) = dims" "length (snd ?b) = dims"
    using spec_subregion_length [of "region s" grid idx] assms(5) by simp_all
  have c: "real_of_int calls_per_bin = real (nat calls_per_bin)"
    using assms(7) by simp
  show ?thesis
    unfolding loop_bin_estimate_def spec_bin_estimate_def spec_subregion_code [OF assms(1-6)]
      option.sel Let_def spec_point_code [OF l] c
    using spec_volume_code [of ?b] l by simp
qed

lemma loop_evaluation_spec:
  assumes "0 < n"
    and "length (fst (region s)) = dims" "length (snd (region s)) = dims"
    and "length grid = dims" "\<forall>d<dims. length (grid ! d) = Suc n \<and> grid ! d ! n = 0"
    and "0 \<le> calls_per_bin"
  shows "loop_evaluation s dims grid (int n) (n ^ dims) calls_per_bin k
    = spec_evaluation (region s) grid (func s) (rand s) n dims (nat calls_per_bin) k"
proof -
  have "loop_bin_estimate s dims grid calls_per_bin (advance b (int n) (replicate dims 0))
            (k + b * nat calls_per_bin)
      = spec_bin_estimate (func s) (rand s) (spec_subregion (region s) grid (spec_indices n dims b))
            (nat calls_per_bin) (k + b * nat calls_per_bin)"
    if "b < n ^ dims" for b
  proof -
    have i: "length (spec_indices n dims b) = dims" "\<forall>d<dims. spec_indices n dims b ! d < n"
      using assms(1) by (simp_all add: spec_indices_def)
    show ?thesis
      unfolding advance_spec_indices [OF assms(1) that]
      by (rule loop_bin_estimate_spec [OF assms(2-5) i assms(6)])
  qed
  then show ?thesis
    unfolding loop_evaluation_def spec_evaluation_def
    by (intro arg_cong [where f = sum_list] map_cong) simp_all
qed

lemma prepare_grid_commits_trained:
  assumes "prepare_grid s0 bins_per_dimension epochs calls_per_epoch alpha = (Inr (), s)"
  shows "\<exists>grid. bins s = Some grid \<and> bin_num s = Some bins_per_dimension \<and> 1 \<le> bins_per_dimension
    \<and> region s = region s0 \<and> func s = func s0 \<and> rand s = rand s0
    \<and> dimensions s = length (fst (region s)) \<and> length grid = dimensions s
    \<and> (\<forall>d<dimensions s. length (grid ! d) = Suc (nat bins_per_dimension)
          \<and> grid ! d ! nat bins_per_dimension = 0)"
proof -
  from prepare_grid_sentinel [OF assms] obtain grid where g: "bins s = Some grid"
    "length grid = length (fst (region s0))"
    "\<forall>d<length (fst (region s0)). length (grid ! d) = nat bins_per_dimension + 1
          \<and> grid ! d ! nat bins_per_dimension = 0"
    by blast
  from prepare_grid_draws [OF assms] have d: "1 \<le> bins_per_dimension"
    "bin_num s = Some bins_per_dimension" "dimensions s = length (fst (region s0))"
    by simp_all
  have r: "region s = region s0 \<and> func s = func s0 \<and> rand s = rand s0"
    using assms
    by (auto simp: prepare_grid_def Let_def split: if_splits sum.splits prod.splits)
  with g d show ?thesis
    by simp
qed

lemma integrate_keeps_trained:
  assumes "integrate s times0 number_of_calls = (r, s')"
  shows "bins s' = bins s \<and> bin_num s' = bin_num s \<and> dimensions s' = dimensions s
    \<and> region s' = region s \<and> func s' = func s \<and> rand s' = rand s"
  using assms
  by (auto simp: integrate_def Let_def split: if_splits option.splits prod.splits)

text \<open>
  Claim C6.  \<^const>\<open>integrate\<close>, on a model trained with \<open>n\<close> bins per dimension and asked for
  positive \<open>times\<close> and \<open>number_of_calls\<close>, returns the pair that the specification describes,
  where the description is written down on its own, without the program's odometer and
  without its lookup of a bin: \<^const>\<open>spec_integrate\<close> is the mean and the square root of the
  population variance (division by the number of evaluations) of \<open>times\<close> evaluations; one
  evaluation, \<^const>\<open>spec_evaluation\<close>, is the sum over the numbers \<open>b < n ^ dims\<close> of the estimate
  of the bin whose index in dimension \<open>d\<close> is the digit \<open>d\<close> of \<open>b\<close> in base \<open>n\<close>; the estimate of
  a bin, \<^const>\<open>spec_bin_estimate\<close>, is the sum over \<open>max (number_of_calls div n ^ dims) 2\<close> uniform
  points of the box of \<open>volume * f point / calls_per_bin\<close>; and the box of a bin,
  \<^const>\<open>spec_subregion\<close>, reaches in every dimension from the previous edge of the grid (0 for
  the first bin) to the bin's own edge, scaled to the region.  The theorem also states that
  the list of evaluations has \<open>times\<close> entries, and that every combination of bin indices is
  the digit list of exactly one \<open>b < n ^ dims\<close>, so that the sum of an evaluation counts every
  bin combination once.  Its second part shows that the hypotheses on the state are those
  of the states that \<^const>\<open>prepare_grid\<close> commits: the grid has one column per dimension, each
  with \<open>n + 1\<close> entries of which the last is 0.  The integrand may take either sign.  All
  values are exact reals: the rounding of the doubles is outside this theorem.
\<close>


theorem integrate_mean_and_error:
  "(bins s = Some grid \<and> bin_num s = Some (int n) \<and> 0 < n \<and> dimensions s = dims
      \<and> length (fst (region s)) = dims \<and> length (snd (region s)) = dims \<and> length grid = dims
      \<and> (\<forall>d<dims. length (grid ! d) = Suc n \<and> grid ! d ! n = 0)
      \<and> 0 < times0 \<and> 0 < number_of_calls \<longrightarrow>
      integrate s times0 number_of_calls
        = (Inr (spec_integrate (region s) grid (func s) (rand s) n dims (nat times0)
                  (nat number_of_calls) (draws s)),
           s\<lparr>draws := draws s
              + nat times0 * (n ^ dims * spec_calls_per_bin (nat number_of_calls) (n ^ dims))\<rparr>)
      \<and> length (spec_evaluations (region s) grid (func s) (rand s) n dims (nat times0)
                  (nat number_of_calls) (draws s)) = nat times0
      \<and> (\<forall>idx. length idx = dims \<and> (\<forall>d<dims. idx ! d < n) \<longrightarrow>
            (\<exists>!b. b < n ^ dims \<and> spec_indices n dims b = idx)))
   \<and> (prepare_grid s0 bins_per_dimension epochs calls_per_epoch alpha = (Inr (), s1)
        \<and> length (snd (region s0)) = length (fst (region s0)) \<longrightarrow>
        (\<exists>grid1. bins (s1\<lparr>draws := k\<rparr>) = Some grid1
           \<and> bin_num (s1\<lparr>draws := k\<rparr>) = Some (int (nat bins_per_dimension))
           \<and> 0 < nat bins_per_dimension
           \<and> dimensions (s1\<lparr>draws := k\<rparr>) = length (fst (region s0))
           \<and> region (s1\<lparr>draws := k\<rparr>) = region s0
           \<and> length grid1 = length (fst (region s0))
           \<and> (\<forall>d<length (fst (region s0)). length (grid1 ! d) = Suc (nat bins_per_dimension)
                  \<and> grid1 ! d ! nat bins_per_dimension = 0)))"
proof (intro conjI impI)
  assume a: "bins s = Some grid \<and> bin_num s = Some (int n) \<and> 0 < n \<and> dimensions s = dims
      \<and> length (fst (region s)) = dims \<and> length (snd (region s)) = dims \<and> length grid = dims
      \<and> (\<forall>d<dims. length (grid ! d) = Suc n \<and> grid ! d ! n = 0)
      \<and> 0 < times0 \<and> 0 < number_of_calls"
  then have b: "bins s = Some grid" "bin_num s = Some (int n)" and n: "0 < n"
    and d: "dimensions s = dims"
    and shape: "length (fst (region s)) = dims" "length (snd (region s)) = dims" "length grid = dims"
    and rows: "\<forall>d<dims. length (grid ! d) = Suc n \<and> grid ! d ! n = 0"
    and t: "0 < times0" "0 < number_of_calls"
    by simp_all
  let ?total = "int n ^ dims"
  let ?cpb = "max (number_of_calls div ?total) 2"
  have tot: "nat ?total = n ^ dims" "?total \<noteq> 0"
    using n by (simp_all add: nat_power_eq)
  have cpb: "nat ?cpb = spec_calls_per_bin (nat number_of_calls) (n ^ dims)" "0 \<le> ?cpb"
  proof -
    have "nat (number_of_calls div int n ^ dims) = nat number_of_calls div n ^ dims"
      using t(2) n by (simp add: nat_div_distrib nat_power_eq)
    moreover have "nat (max a 2) = max (nat a) 2" for a :: int
      by (auto simp: max_def)
    ultimately show "nat ?cpb = spec_calls_per_bin (nat number_of_calls) (n ^ dims)"
      by (simp only: spec_calls_per_bin_def)
    show "0 \<le> ?cpb" by simp
  qed
  have lens: "\<forall>d<dims. length (grid ! d) = Suc n"
    using rows by simp
  from evaluations_loop_returns [OF n shape lens, of ?total ?cpb "nat times0" "[]" "draws s"]
  obtain evs k where e: "evaluations_loop s dims grid (int n) ?total ?cpb (nat times0) ([], draws s)
      = Some (evs, k)"
    by (metis surj_pair)
  from evaluations_loop_list [OF e]
  have k: "k = draws s + nat times0 * (n ^ dims * spec_calls_per_bin (nat number_of_calls) (n ^ dims))"
    and evs: "evs = map (\<lambda>j. loop_evaluation s dims grid (int n) (n ^ dims) ?cpb
                              (draws s + j * (n ^ dims * nat ?cpb))) [0 ..< nat times0]"
    by (simp_all add: tot cpb(1))
  have "evs = spec_evaluations (region s) grid (func s) (rand s) n dims (nat times0)
                  (nat number_of_calls) (draws s)"
    unfolding evs spec_evaluations_def Let_def loop_evaluation_spec [OF n shape rows cpb(2)] cpb(1) ..
  moreover have "np_mean xs = spec_mean xs" "np_var xs = spec_population_variance xs" for xs
    by (simp_all add: np_mean_def spec_mean_def np_var_def spec_population_variance_def)
  ultimately show "integrate s times0 number_of_calls
        = (Inr (spec_integrate (region s) grid (func s) (rand s) n dims (nat times0)
                  (nat number_of_calls) (draws s)),
           s\<lparr>draws := draws s
              + nat times0 * (n ^ dims * spec_calls_per_bin (nat number_of_calls) (n ^ dims))\<rparr>)"
    using b d t tot(2) e k by (simp add: integrate_def Let_def spec_integrate_def)
  show "length (spec_evaluations (region s) grid (func s) (rand s) n dims (nat times0)
                  (nat number_of_calls) (draws s)) = nat times0"
    by (simp add: spec_evaluations_def Let_def)
  show "\<forall>idx. length idx = dims \<and> (\<forall>d<dims. idx ! d < n) \<longrightarrow>
            (\<exists>!b. b < n ^ dims \<and> spec_indices n dims b = idx)"
    using spec_indices_covers [OF n] by blast
next
  assume "prepare_grid s0 bins_per_dimension epochs calls_per_epoch alpha = (Inr (), s1)
        \<and> length (snd (region s0)) = length (fst (region s0))"
  then have p: "prepare_grid s0 bins_per_dimension epochs calls_per_epoch alpha = (Inr (), s1)"
    by simp
  from prepare_grid_commits_trained [OF p]
  show "\<exists>grid1. bins (s1\<lparr>draws := k\<rparr>) = Some grid1
           \<and> bin_num (s1\<lparr>draws := k\<rparr>) = Some (int (nat bins_per_dimension))
           \<and> 0 < nat bins_per_dimension
           \<and> dimensions (s1\<lparr>draws := k\<rparr>) = length (fst (region s0))
           \<and> region (s1\<lparr>draws := k\<rparr>) = region s0
           \<and> length grid1 = length (fst (region s0))
           \<and> (\<forall>d<length (fst (region s0)). length (grid1 ! d) = Suc (nat bins_per_dimension)
                  \<and> grid1 ! d ! nat bins_per_dimension = 0)"
    by auto
qed

text \<open>
  The theorem at a grid of two dimensions with two bins each, on the region
  \<open>[0, 2] \<times> [1, 5]\<close>, for the integrand \<open>x\<^sub>0 - x\<^sub>1 + 3\<close>, which is negative at the points drawn in
  the upper bins of the second dimension: two evaluations of four bins with two points
  each, which are \<open>11 / 2\<close> and \<open>21 / 2\<close>, so that the mean is 8 and the error \<open>5 / 2\<close>; the four
  numbers below \<open>2\<^sup>2\<close> give the four combinations of indices.
\<close>


theorem integrate_mean_and_error_witness:
  "integrate \<lparr>region = ([0, 1], [2, 5]), func = (\<lambda>x. x ! 0 - x ! 1 + 3), dimensions = 2,
              rand = (\<lambda>k j. if j = 0 then (if k < 8 then 1 / 4 else 3 / 4) else 1 / 2),
              draws = 0, bin_num = Some 2, bins = Some [[1 / 4, 1, 0], [1 / 2, 1, 0]]\<rparr> 2 1
     = (Inr (8, 5 / 2),
        \<lparr>region = ([0, 1], [2, 5]), func = (\<lambda>x. x ! 0 - x ! 1 + 3), dimensions = 2,
         rand = (\<lambda>k j. if j = 0 then (if k < 8 then 1 / 4 else 3 / 4) else 1 / 2),
         draws = 16, bin_num = Some 2, bins = Some [[1 / 4, 1, 0], [1 / 2, 1, 0]]\<rparr>)
   \<and> spec_evaluations ([0, 1], [2, 5]) [[1 / 4, 1, 0], [1 / 2, 1, 0]] (\<lambda>x. x ! 0 - x ! 1 + 3)
        (\<lambda>k j. if j = 0 then (if k < 8 then 1 / 4 else 3 / 4) else 1 / 2) 2 2 2 1 0
     = [11 / 2, 21 / 2]
   \<and> map (spec_indices 2 2) [0, 1, 2, 3] = [[0, 0], [1, 0], [0, 1], [1, 1]]"
proof -
  let ?f = "\<lambda>x :: real list. x ! 0 - x ! 1 + 3"
  let ?u = "\<lambda>(k::nat) (j::nat). if j = 0 then (if k < 8 then 1 / 4 else 3 / 4) else (1 / 2 :: real)"
  let ?grid = "[[1 / 4, 1, 0], [1 / 2, 1, 0 :: real]]"
  let ?s = "\<lparr>region = ([0, 1], [2, 5]), func = ?f, dimensions = 2, rand = ?u,
             draws = 0, bin_num = Some 2, bins = Some ?grid\<rparr>"
  have h: "bins ?s = Some ?grid \<and> bin_num ?s = Some (int 2) \<and> 0 < (2::nat) \<and> dimensions ?s = 2
      \<and> length (fst (region ?s)) = 2 \<and> length (snd (region ?s)) = 2 \<and> length ?grid = 2
      \<and> (\<forall>d<2. length (?grid ! d) = Suc 2 \<and> ?grid ! d ! 2 = 0)
      \<and> (0::int) < 2 \<and> (0::int) < 1"
  proof -
    have "\<forall>d<2. length (?grid ! d) = Suc 2 \<and> ?grid ! d ! 2 = 0"
      by (simp add: less_Suc_eq numeral_2_eq_2)
    moreover have "bins ?s = Some ?grid" "bin_num ?s = Some (int 2)" "dimensions ?s = 2"
      "length (fst (region ?s)) = 2" "length (snd (region ?s)) = 2" "length ?grid = 2"
      by simp_all
    moreover have "0 < (2::nat)" "(0::int) < 2" "(0::int) < 1"
      by simp_all
    ultimately show ?thesis
      by (intro conjI)
  qed
  have e: "spec_evaluations ([0, 1], [2, 5]) ?grid ?f ?u 2 2 2 1 0 = [11 / 2, 21 / 2]"
    by code_simp
  have i: "map (spec_indices 2 2) [0, 1, 2, 3] = [[0, 0], [1, 0], [0, 1], [1, 1]]"
    by code_simp
  have "sqrt ((5 / 2) ^ 2) = \<bar>5 / 2 :: real\<bar>"
    by (rule real_sqrt_abs)
  then have "sqrt ((5 / 2) ^ 2) = (5 / 2 :: real)"
    by simp
  then have q: "sqrt (25 / 4) = (5 / 2 :: real)"
    by (simp add: power2_eq_square)
  have r: "spec_integrate ([0, 1], [2, 5]) ?grid ?f ?u 2 2 2 1 0 = (8, 5 / 2)"
    unfolding spec_integrate_def e Let_def
    by (simp add: spec_mean_def spec_population_variance_def power2_eq_square q)
  have c: "spec_calls_per_bin (Suc 0) 4 = 2"
    by (simp add: spec_calls_per_bin_def)
  from integrate_mean_and_error [of ?s ?grid 2 2 2 1, THEN conjunct1, THEN mp, OF h]
  have "integrate ?s 2 1
        = (Inr (spec_integrate (region ?s) ?grid (func ?s) (rand ?s) 2 2 (nat 2) (nat 1) (draws ?s)),
           ?s\<lparr>draws := draws ?s + nat 2 * (2 ^ 2 * spec_calls_per_bin (nat 1) (2 ^ 2))\<rparr>)"
    by (rule conjunct1)
  with r have "integrate ?s 2 1 = (Inr (8, 5 / 2), ?s\<lparr>draws := 16\<rparr>)"
    by (simp add: c)
  with e i show ?thesis
    by simp
qed

end
